theory Spec2Isabelle
  imports Main "HOL-Library.Word" "HOL-Library.Sublist"
begin

unbundle bit_operations_syntax

section \<open>Symbol resolution over a program database (pdb.cpp)\<close>

subsection \<open>Data\<close>

text \<open>
  \<^verbatim>\<open>span_t\<close> is declared outside the two source files; it is the pair of the
  address a module is mapped at and the size of the mapping, both \<^verbatim>\<open>uint64_t\<close>.
  A value-initialised span (\<^verbatim>\<open>return {};\<close>) has both fields zero.
\<close>

record span_t =
  addr :: "64 word"
  span_size :: "64 word"

definition span_default :: span_t where
  "span_default = \<lparr>addr = 0, span_size = 0\<rparr>"

text \<open>
  A global variable as the program-database parser hands it over. Only the two fields
  read by pdb.cpp are kept; \<open>address\<close> is the value the field has once converted to
  \<^verbatim>\<open>uint64_t\<close> in \<^verbatim>\<open>get_offset\<close>.
\<close>

record PDBGlobalVariable =
  name :: string
  address :: "64 word"

datatype PDBFileState =
    PDB_STATE_OK
  | PDB_STATE_ALREADY_LOADED
  | PDB_STATE_ERR_FILE_OPEN
  | PDB_STATE_INVALID_FILE
  | PDB_STATE_UNSUPPORTED_VERSION

text \<open>
  \<^verbatim>\<open>Symbols\<close> is a \<^verbatim>\<open>std::unordered_map\<close>, \<^verbatim>\<open>SymbolsByOffset\<close> a
  \<^verbatim>\<open>std::map\<close>. Both are association lists here: the first in insertion order, the
  second kept in increasing key order, so that an iterator is a position in the list,
  \<^verbatim>\<open>begin()\<close> is position 0 and \<^verbatim>\<open>end()\<close> is the length.
\<close>

type_synonym Symbols = "(string \<times> PDBGlobalVariable) list"
type_synonym SymbolsByOffset = "(64 word \<times> PDBGlobalVariable) list"

text \<open>The members \<^verbatim>\<open>span_\<close>, \<^verbatim>\<open>symbols_\<close> and \<^verbatim>\<open>symbols_by_offset\<close> of \<^verbatim>\<open>Pdb\<close>.\<close>

record Pdb =
  span_member :: span_t
  symbols :: Symbols
  symbols_by_offset :: SymbolsByOffset

text \<open>\<^verbatim>\<open>sym::ModCursor\<close>: a symbol name and the distance of the address from it.\<close>

datatype ModCursor = ModCursor (cursor_symbol: string) (cursor_offset: "64 word")

text \<open>
  Stepping an iterator back from \<^verbatim>\<open>begin()\<close> has no defined result in C++; the model
  makes it an outcome of its own.
\<close>

datatype fault = Decrement_Begin

subsection \<open>Building the index\<close>

text \<open>
  \<^verbatim>\<open>static const int BASE_ADDRESS = 0x80000000;\<close> The constant is a 32-bit signed
  integer, kept here as its bit pattern (\<open>sint\<close> reads it as \<open>- (2 ^ 31)\<close>); in
  \<^verbatim>\<open>get_offset\<close> it is converted to \<^verbatim>\<open>uint64_t\<close>, which extends the sign
  (\<open>scast\<close>), before the subtraction, which wraps modulo \<open>2 ^ 64\<close>.
\<close>

definition BASE_ADDRESS :: "32 word" where
  "BASE_ADDRESS = 0x80000000"

definition get_offset :: "Pdb \<Rightarrow> PDBGlobalVariable \<Rightarrow> 64 word" where
  "get_offset pdb var = addr (span_member pdb) + address var - scast BASE_ADDRESS"

text \<open>\<^verbatim>\<open>unordered_map::emplace\<close>: nothing happens when the key is already there.\<close>

definition emplace :: "'k \<Rightarrow> 'v \<Rightarrow> ('k \<times> 'v) list \<Rightarrow> ('k \<times> 'v) list" where
  "emplace k v m = (if k \<in> fst ` set m then m else m @ [(k, v)])"

text \<open>\<^verbatim>\<open>map::emplace\<close>: the same, the new entry going to its place in key order.\<close>

fun emplace_ordered :: "'k::linorder \<Rightarrow> 'v \<Rightarrow> ('k \<times> 'v) list \<Rightarrow> ('k \<times> 'v) list" where
  "emplace_ordered k v [] = [(k, v)]"
| "emplace_ordered k v ((k', v') # m) =
     (if k < k' then (k, v) # (k', v') # m
      else if k = k' then (k', v') # m
      else (k', v') # emplace_ordered k v m)"

text \<open>The body of the loop of \<^verbatim>\<open>Pdb::setup\<close>, for one element of \<^verbatim>\<open>*globals\<close>.\<close>

definition setup_step :: "Pdb \<Rightarrow> PDBGlobalVariable \<Rightarrow> Pdb" where
  "setup_step p it =
     p\<lparr>symbols := emplace (name it) it (symbols p),
       symbols_by_offset := emplace_ordered (get_offset p it) it (symbols_by_offset p)\<rparr>"

text \<open>
  \<^verbatim>\<open>Pdb::Pdb\<close> followed by \<^verbatim>\<open>Pdb::setup\<close>. What the parser library returns for the
  file, the load state and the globals in iteration order, are parameters.
\<close>

definition Pdb_new :: "span_t \<Rightarrow> Pdb" where
  "Pdb_new span = \<lparr>span_member = span, symbols = [], symbols_by_offset = []\<rparr>"

definition Pdb_setup :: "PDBFileState \<Rightarrow> PDBGlobalVariable list \<Rightarrow> Pdb \<Rightarrow> bool \<times> Pdb" where
  "Pdb_setup err globals p =
     (if err \<noteq> PDB_STATE_OK then (False, p)
      else (True, foldl setup_step p globals))"

definition make_pdb :: "span_t \<Rightarrow> PDBFileState \<Rightarrow> PDBGlobalVariable list \<Rightarrow> Pdb option" where
  "make_pdb span err globals =
     (let (ok, ptr) = Pdb_setup err globals (Pdb_new span)
      in if \<not> ok then None else Some ptr)"

subsection \<open>Queries\<close>

definition Pdb_span :: "Pdb \<Rightarrow> span_t" where
  "Pdb_span p = span_member p"

text \<open>\<^verbatim>\<open>Pdb::symbol(const std::string&)\<close>\<close>

definition symbol_by_name :: "Pdb \<Rightarrow> string \<Rightarrow> 64 word option" where
  "symbol_by_name p s =
     (case map_of (symbols p) s of
        None \<Rightarrow> None
      | Some var \<Rightarrow> Some (get_offset p var))"

text \<open>
  \<^verbatim>\<open>std::string::find\<close>: the first position at which \<open>s\<close> occurs, \<open>None\<close> for
  \<^verbatim>\<open>npos\<close>.
\<close>

fun find_str :: "string \<Rightarrow> string \<Rightarrow> nat option" where
  "find_str [] s = (if s = [] then Some 0 else None)"
| "find_str (c # cs) s =
     (if prefix s (c # cs) then Some 0 else map_option Suc (find_str cs s))"

definition symbols_that_contains :: "Pdb \<Rightarrow> string \<Rightarrow> (string \<times> 64 word) list option" where
  "symbols_that_contains p s =
     (let found = foldl (\<lambda>found sym.
                     if find_str (fst sym) s \<noteq> None
                     then emplace (fst sym) (get_offset p (snd sym)) found
                     else found) [] (symbols p)
      in if length found = 0 then None else Some found)"

text \<open>\<^verbatim>\<open>lower_bound\<close>: the position of the first entry whose key is not below \<open>a\<close>.\<close>

fun lower_bound :: "('k::linorder \<times> 'v) list \<Rightarrow> 'k \<Rightarrow> nat" where
  "lower_bound [] a = 0"
| "lower_bound ((k, v) # m) a = (if k < a then Suc (lower_bound m a) else 0)"

text \<open>
  \<^verbatim>\<open>make_cursor\<close>, once for forward iterators (a position and the end position) and once
  for the reverse iterators \<^verbatim>\<open>rbegin()\<close>, \<^verbatim>\<open>rend()\<close>, where the position counts from
  the back.
\<close>

definition make_cursor ::
  "Pdb \<Rightarrow> SymbolsByOffset \<Rightarrow> nat \<Rightarrow> nat \<Rightarrow> 64 word \<Rightarrow> ModCursor option" where
  "make_cursor p m it end' a =
     (if it = end' then None
      else Some (ModCursor (name (snd (m ! it))) (a - get_offset p (snd (m ! it)))))"

definition make_cursor_rev :: "Pdb \<Rightarrow> SymbolsByOffset \<Rightarrow> 64 word \<Rightarrow> ModCursor option" where
  "make_cursor_rev p m a = make_cursor p (rev m) 0 (length m) a"

text \<open>\<^verbatim>\<open>Pdb::symbol(uint64_t)\<close>\<close>

definition symbol_by_addr :: "Pdb \<Rightarrow> 64 word \<Rightarrow> fault + ModCursor option" where
  "symbol_by_addr p a =
     (let m = symbols_by_offset p;
          it = lower_bound m a;
          end' = length m
      in if it = end' then Inr (make_cursor_rev p m a)
         else if fst (m ! it) = a then Inr (make_cursor p m it end' a)
         else if it = 0 then Inl Decrement_Begin
         else Inr (make_cursor p m (it - 1) end' a))"

section \<open>The signature scanner (pdb.cpp, \<^verbatim>\<open>read_pdb\<close>)\<close>

type_synonym byte = "8 word"

text \<open>
  \<^verbatim>\<open>PdbCtx\<close>: the identifier string and the file name. The name is a
  \<^verbatim>\<open>std::string\<close> built from bytes of the buffer; \<open>byte_char\<close> is that conversion.
\<close>

record PdbCtx =
  guid :: string
  pdb_name :: string

definition byte_char :: "byte \<Rightarrow> char" where
  "byte_char b = char_of (unat b)"

text \<open>
  The ways \<^verbatim>\<open>read_pdb\<close> ends without a result. The first three are its \<^verbatim>\<open>FAIL\<close>
  returns. \<open>Read_Past_End\<close> is not a return of the source: it is the model's outcome
  when a byte at or beyond \<^verbatim>\<open>&src[src_size]\<close> is read, which C++ leaves undefined.
\<close>

datatype scan_error = No_Pattern | Too_Small | Missing_Terminator | Read_Past_End

definition rsds_magic :: "byte list" where
  "rsds_magic = [0x52, 0x53, 0x44, 0x53]"

text \<open>
  Modelled from the spec: \<^verbatim>\<open>search\<close> with a \<^verbatim>\<open>boyer_moore_horspool_searcher\<close> lives
  in utils/utils.hpp, outside the two source files. It searches the range for the marker
  and returns the first match, or null: here the position of the first occurrence.
\<close>

fun search :: "byte list \<Rightarrow> byte list \<Rightarrow> nat option" where
  "search [] pat = (if pat = [] then Some 0 else None)"
| "search (b # bs) pat =
     (if prefix pat (b # bs) then Some 0 else map_option Suc (search bs pat))"

text \<open>
  \<^verbatim>\<open>memchr(p, c, n)\<close> reads \<open>n\<close> bytes one after the other from \<open>p\<close> and stops at the
  first that equals \<open>c\<close> (C11, 7.24.5.1). \<open>mem\<close> holds the bytes up to the end of the buffer; a read at
  a position that is not in it is the outcome \<open>Read_Past_End\<close>.
\<close>

fun memchr :: "byte list \<Rightarrow> nat \<Rightarrow> byte \<Rightarrow> nat \<Rightarrow> scan_error + nat option" where
  "memchr mem p c 0 = Inr None"
| "memchr mem p c (Suc n) =
     (if length mem \<le> p then Inl Read_Past_End
      else if mem ! p = c then Inr (Some p)
      else memchr mem (Suc p) c n)"

text \<open>
  Modelled from the spec: endian.hpp is outside the two source files. The names say what
  the four helpers do: read a little-endian field at a pointer, write a big-endian one.
\<close>

definition read_le32 :: "byte list \<Rightarrow> 32 word" where
  "read_le32 p = ucast (p ! 0) OR push_bit 8 (ucast (p ! 1)) OR push_bit 16 (ucast (p ! 2))
                 OR push_bit 24 (ucast (p ! 3))"

definition read_le16 :: "byte list \<Rightarrow> 16 word" where
  "read_le16 p = ucast (p ! 0) OR push_bit 8 (ucast (p ! 1))"

definition write_be32 :: "32 word \<Rightarrow> byte list" where
  "write_be32 x = [ucast (drop_bit 24 x), ucast (drop_bit 16 x), ucast (drop_bit 8 x), ucast x]"

definition write_be16 :: "16 word \<Rightarrow> byte list" where
  "write_be16 x = [ucast (drop_bit 8 x), ucast x]"

text \<open>
  The four bytes of a little-endian 32-bit field, as a buffer holds them: the encoding
  that \<^verbatim>\<open>read_le32\<close> reads back.
\<close>

definition le32 :: "32 word \<Rightarrow> byte list" where
  "le32 x = [ucast x, ucast (drop_bit 8 x), ucast (drop_bit 16 x), ucast (drop_bit 24 x)]"

text \<open>
  Modelled from the spec: utils/hex.hpp is outside the two source files.
  \<^verbatim>\<open>hex::convert(dst, hex::chars_upper, src, n)\<close> renders each byte as two uppercase
  hexadecimal characters, the high half first.
\<close>

definition chars_upper :: string where
  "chars_upper = ''0123456789ABCDEF''"

definition hex_convert :: "string \<Rightarrow> byte list \<Rightarrow> string" where
  "hex_convert chars bs =
     concat (map (\<lambda>b. [chars ! unat (drop_bit 4 b), chars ! unat (b AND 0x0F)]) bs)"

text \<open>\<^verbatim>\<open>std::to_string\<close> of an unsigned value: its decimal digits.\<close>

fun to_string :: "nat \<Rightarrow> string" where
  "to_string n =
     (if n < 10 then [''0123456789'' ! n]
      else to_string (n div 10) @ [''0123456789'' ! (n mod 10)])"

text \<open>\<^verbatim>\<open>std::isprint\<close> in the C locale, the locale the program runs in.\<close>

definition isprint :: "byte \<Rightarrow> bool" where
  "isprint b \<longleftrightarrow> 0x20 \<le> b \<and> b \<le> 0x7E"

text \<open>\<^verbatim>\<open>read_pdb_name\<close>, given the bytes between its two pointers.\<close>

definition read_pdb_name :: "byte list \<Rightarrow> string option" where
  "read_pdb_name bs = (if list_all isprint bs then Some (map byte_char bs) else None)"

text \<open>
  \<^verbatim>\<open>read_pdb\<close>. The argument is the bytes from \<^verbatim>\<open>src\<close> to \<^verbatim>\<open>end\<close>, so its length is
  \<^verbatim>\<open>src_size\<close>; \<open>rsds\<close> is the bytes from the match to \<^verbatim>\<open>end\<close>, and the next round of
  the loop runs on \<open>drop 1 rsds\<close> (\<^verbatim>\<open>src = rsds + 1\<close>).
\<close>

function read_pdb :: "byte list \<Rightarrow> scan_error + PdbCtx" where
  "read_pdb src =
     (case search src rsds_magic of
        None \<Rightarrow> Inl No_Pattern
      | Some pos \<Rightarrow>
          if length (drop pos src) < 4 + 16 + 4 + 2 then Inl Too_Small
          else
            (case memchr (drop pos src) (4 + 16 + 4) 0x00 (length (drop pos src)) of
               Inl fault \<Rightarrow> Inl fault
             | Inr None \<Rightarrow> Inl Missing_Terminator
             | Inr (Some name_end) \<Rightarrow>
                 (case read_pdb_name (take (name_end - (4 + 16 + 4)) (drop (4 + 16 + 4) (drop pos src))) of
                    Some nm \<Rightarrow>
                      Inr \<lparr>guid =
                             hex_convert chars_upper
                               (write_be32 (read_le32 (drop (4 + 0) (drop pos src)))
                                @ write_be16 (read_le16 (drop (4 + 4) (drop pos src)))
                                @ write_be16 (read_le16 (drop (4 + 6) (drop pos src)))
                                @ take 8 (drop (4 + 8) (drop pos src)))
                             @ to_string (unat (read_le32 (drop (4 + 16) (drop pos src)))),
                           pdb_name = nm\<rparr>
                  | None \<Rightarrow> read_pdb (drop 1 (drop pos src)))))"
  by pat_completeness auto
termination
  by (relation "measure length") auto

declare read_pdb.simps [simp del]

text \<open>
  \<^verbatim>\<open>sym::make_pdb(span, data, data_size)\<close>: the identity read from the image names the
  file to open; \<open>load\<close> gives what the parser library returns for that module name and
  identifier.
\<close>

definition make_pdb_image ::
  "(string \<Rightarrow> string \<Rightarrow> PDBFileState \<times> PDBGlobalVariable list)
     \<Rightarrow> span_t \<Rightarrow> byte list \<Rightarrow> Pdb option" where
  "make_pdb_image load span data =
     (case read_pdb data of
        Inl _ \<Rightarrow> None
      | Inr pdb \<Rightarrow> make_pdb span (fst (load (pdb_name pdb) (guid pdb)))
                                 (snd (load (pdb_name pdb) (guid pdb))))"

section \<open>Structure layouts from DWARF (dwarf.cpp)\<close>

subsection \<open>What libdwarf answers\<close>

text \<open>
  libdwarf is an external library; a debugging-information entry is modelled by what the
  calls made on it return. Every call returns one of three codes, with a value when the
  code is \<^verbatim>\<open>DW_DLV_OK\<close>.
\<close>

datatype 'a dw = DW_DLV_OK 'a | DW_DLV_NO_ENTRY | DW_DLV_ERROR

text \<open>
  One operation of a location expression (\<^verbatim>\<open>Dwarf_Loc\<close>). A location description
  (\<^verbatim>\<open>Dwarf_Locdesc\<close>) is the list \<^verbatim>\<open>ld_s\<close> of its operations, \<^verbatim>\<open>ld_cents\<close> being
  the length of that list; \<^verbatim>\<open>llbuf\<close> is a list of descriptions and \<^verbatim>\<open>listlen\<close> its
  length.
\<close>

datatype Dwarf_Loc = Dwarf_Loc (lr_atom: "8 word") (lr_number: "64 word")

type_synonym Dwarf_Locdesc = "Dwarf_Loc list"

datatype Dwarf_Attribute = Dwarf_Attribute
  (dwarf_whatform: "16 word dw")
  (dwarf_formudata: "64 word dw")
  (dwarf_formsdata: "64 word dw")
  (dwarf_loclist_n: "Dwarf_Locdesc list dw")

text \<open>
  A \<^verbatim>\<open>Dwarf_Die\<close>: its name, the entry of its type (\<^verbatim>\<open>dwarf_dietype_offset\<close> followed
  by \<^verbatim>\<open>dwarf_offdie_b\<close>, \<open>None\<close> unless both return \<^verbatim>\<open>DW_DLV_OK\<close>), its children
  (\<^verbatim>\<open>dwarf_child\<close> and the chain of \<^verbatim>\<open>dwarf_siblingof_b\<close>, \<open>None\<close> when one of them
  returns \<^verbatim>\<open>DW_DLV_ERROR\<close>), its \<^verbatim>\<open>DW_AT_data_member_location\<close> attribute and its
  byte size. The entries reached through types and children form a finite tree: a
  member held by value cannot contain the structure it is a member of.
\<close>

datatype Dwarf_Die = Dwarf_Die
  (dwarf_diename: "string dw")
  (dwarf_dietype: "Dwarf_Die option")
  (dwarf_children: "Dwarf_Die list option")
  (dwarf_attr: "Dwarf_Attribute dw")
  (dwarf_bytesize: "64 word dw")

text \<open>The constants of dwarf.h that dwarf.cpp names.\<close>

definition DW_FORM_data2 :: "16 word" where "DW_FORM_data2 = 0x05"
definition DW_FORM_data4 :: "16 word" where "DW_FORM_data4 = 0x06"
definition DW_FORM_data8 :: "16 word" where "DW_FORM_data8 = 0x07"
definition DW_FORM_data1 :: "16 word" where "DW_FORM_data1 = 0x0b"
definition DW_FORM_sdata :: "16 word" where "DW_FORM_sdata = 0x0d"
definition DW_FORM_udata :: "16 word" where "DW_FORM_udata = 0x0f"
definition DW_OP_plus_uconst :: "8 word" where "DW_OP_plus_uconst = 0x23"

text \<open>
  What libdwarf answers for a file while \<^verbatim>\<open>Dwarf::setup\<close> runs: the result of
  \<^verbatim>\<open>dwarf_init_path\<close>; for every compilation-unit header that
  \<^verbatim>\<open>dwarf_next_cu_header_d\<close> delivers, the result of \<^verbatim>\<open>dwarf_siblingof_b\<close>; and whether
  the enumeration of headers ends with \<^verbatim>\<open>DW_DLV_ERROR\<close> instead of
  \<^verbatim>\<open>DW_DLV_NO_ENTRY\<close>.
\<close>

record dwarf_file =
  dwarf_init_path :: "unit dw"
  cu_headers :: "Dwarf_Die dw list"
  cu_headers_error :: bool

text \<open>The member \<^verbatim>\<open>structures\<close> of \<^verbatim>\<open>Dwarf\<close>; the other members are libdwarf handles.\<close>

record Dwarf =
  structures :: "Dwarf_Die list"

subsection \<open>Construction\<close>

definition open_file :: "dwarf_file \<Rightarrow> bool" where
  "open_file f =
     (case dwarf_init_path f of
        DW_DLV_ERROR \<Rightarrow> False
      | DW_DLV_NO_ENTRY \<Rightarrow> False
      | DW_DLV_OK _ \<Rightarrow> True)"

fun read_cu_loop :: "Dwarf_Die dw list \<Rightarrow> bool \<Rightarrow> Dwarf_Die list \<Rightarrow> Dwarf_Die list option" where
  "read_cu_loop [] err cu = (if err then None else if cu = [] then None else Some cu)"
| "read_cu_loop (DW_DLV_NO_ENTRY # hs) err cu = read_cu_loop hs err cu"
| "read_cu_loop (DW_DLV_ERROR # hs) err cu = None"
| "read_cu_loop (DW_DLV_OK die # hs) err cu = read_cu_loop hs err (cu @ [die])"

definition read_cu :: "dwarf_file \<Rightarrow> Dwarf_Die list option" where
  "read_cu f = read_cu_loop (cu_headers f) (cu_headers_error f) []"

definition read_children :: "Dwarf_Die \<Rightarrow> Dwarf_Die list option" where
  "read_children parent = dwarf_children parent"

definition Dwarf_setup :: "dwarf_file \<Rightarrow> Dwarf \<Rightarrow> bool \<times> Dwarf" where
  "Dwarf_setup f p =
     (if \<not> open_file f then (False, p)
      else case read_cu f of
          None \<Rightarrow> (False, p)
        | Some cu \<Rightarrow>
            (let p' = foldl (\<lambda>q die. case read_children die of
                                 Some children \<Rightarrow> q\<lparr>structures := structures q @ children\<rparr>
                               | None \<Rightarrow> q) p cu
             in if structures p' = [] then (False, p') else (True, p')))"

text \<open>
  \<^verbatim>\<open>sym::make_dwarf(span, module, guid)\<close>. The span parameter is unnamed in the source
  and never read. \<open>path\<close> is the value of the environment variable.
\<close>

definition make_dwarf :: "span_t \<Rightarrow> string option \<Rightarrow> dwarf_file \<Rightarrow> Dwarf option" where
  "make_dwarf span path f =
     (case path of
        None \<Rightarrow> None
      | Some _ \<Rightarrow>
          (let (ok, ptr) = Dwarf_setup f \<lparr>structures = []\<rparr>
           in if \<not> ok then None else Some ptr))"

text \<open>\<^verbatim>\<open>sym::make_dwarf(span, data, data_size)\<close> is not implemented and returns null.\<close>

definition make_dwarf_image :: "span_t \<Rightarrow> byte list \<Rightarrow> Dwarf option" where
  "make_dwarf_image span data = None"

subsection \<open>Queries\<close>

definition Dwarf_span :: "Dwarf \<Rightarrow> span_t" where
  "Dwarf_span p = span_default"

text \<open>
  \<^verbatim>\<open>get_structure\<close>. The loop over the collection is the recursion on the list;
  \<^verbatim>\<open>continue\<close> is the call on the rest.
\<close>

fun get_structure :: "string \<Rightarrow> Dwarf_Die list \<Rightarrow> bool \<Rightarrow> Dwarf_Die option" where
  "get_structure nm [] pass_through_anonymous_struct = None"
| "get_structure nm (Dwarf_Die ok_diename ty ch at bs # rest) pass_through_anonymous_struct =
     (if pass_through_anonymous_struct \<and> ok_diename = DW_DLV_NO_ENTRY then
        (case ty of
           None \<Rightarrow> get_structure nm rest pass_through_anonymous_struct
         | Some (Dwarf_Die n' ty' None at' bs') \<Rightarrow>
             get_structure nm rest pass_through_anonymous_struct
         | Some (Dwarf_Die n' ty' (Some children) at' bs') \<Rightarrow>
             (case get_structure nm children True of
                Some child \<Rightarrow> Some child
              | None \<Rightarrow> get_structure nm rest pass_through_anonymous_struct))
      else
        (case ok_diename of
           DW_DLV_OK structure_name \<Rightarrow>
             if structure_name = nm then Some (Dwarf_Die ok_diename ty ch at bs)
             else get_structure nm rest pass_through_anonymous_struct
         | _ \<Rightarrow> get_structure nm rest pass_through_anonymous_struct))"

text \<open>\<^verbatim>\<open>get_attr_member_location\<close>\<close>

definition get_attr_member_location :: "Dwarf_Die \<Rightarrow> 64 word option" where
  "get_attr_member_location die =
     (case dwarf_attr die of
        DW_DLV_ERROR \<Rightarrow> None
      | DW_DLV_NO_ENTRY \<Rightarrow> None
      | DW_DLV_OK attr \<Rightarrow>
          (case dwarf_whatform attr of
             DW_DLV_OK form \<Rightarrow>
               if form = DW_FORM_data1 \<or> form = DW_FORM_data2 \<or> form = DW_FORM_data4
                  \<or> form = DW_FORM_data8 \<or> form = DW_FORM_udata
               then (case dwarf_formudata attr of
                       DW_DLV_OK offset \<Rightarrow> Some offset
                     | _ \<Rightarrow> None)
               else if form = DW_FORM_sdata
               then (case dwarf_formsdata attr of
                       DW_DLV_OK soffset \<Rightarrow> if soffset <s 0 then None else Some soffset
                     | _ \<Rightarrow> None)
               else (case dwarf_loclist_n attr of
                       DW_DLV_OK llbuf \<Rightarrow>
                         if length llbuf \<noteq> 1 \<or> length (llbuf ! 0) \<noteq> 1
                            \<or> lr_atom (llbuf ! 0 ! 0) \<noteq> DW_OP_plus_uconst
                         then None
                         else Some (lr_number (llbuf ! 0 ! 0))
                     | _ \<Rightarrow> None)
           | _ \<Rightarrow> None))"

definition struc_size_internal :: "Dwarf_Die \<Rightarrow> 64 word option" where
  "struc_size_internal struc =
     (case dwarf_bytesize struc of
        DW_DLV_ERROR \<Rightarrow> None
      | DW_DLV_NO_ENTRY \<Rightarrow> None
      | DW_DLV_OK sz \<Rightarrow> Some sz)"

text \<open>\<^verbatim>\<open>Dwarf::struc_offset\<close> and \<^verbatim>\<open>Dwarf::struc_size\<close>\<close>

definition struc_offset :: "Dwarf \<Rightarrow> string \<Rightarrow> string \<Rightarrow> 64 word option" where
  "struc_offset p struc member =
     (case get_structure struc (structures p) False of
        None \<Rightarrow> None
      | Some structure \<Rightarrow>
          (case read_children structure of
             None \<Rightarrow> None
           | Some children \<Rightarrow>
               (case get_structure member children True of
                  None \<Rightarrow> None
                | Some child \<Rightarrow>
                    (case get_attr_member_location child of
                       None \<Rightarrow> None
                     | Some offset \<Rightarrow> Some offset))))"

definition struc_size :: "Dwarf \<Rightarrow> string \<Rightarrow> 64 word option" where
  "struc_size p struc =
     (case get_structure struc (structures p) False of
        None \<Rightarrow> None
      | Some structure \<Rightarrow> struc_size_internal structure)"

subsection \<open>The member search, as the specification words it\<close>

text \<open>
  The specification describes the member search as a search of the members with those of
  unnamed nested structures flattened into them. \<open>flattened_members\<close> is that list:
  the children in declaration order, an unnamed child replaced by the flattened children
  of its type (by nothing when the type or its children cannot be read). It is compared
  with \<open>get_structure\<close> below; no function of the source is defined from it.
\<close>

fun flattened_members :: "Dwarf_Die list \<Rightarrow> Dwarf_Die list" where
  "flattened_members [] = []"
| "flattened_members (Dwarf_Die nm ty ch at bs # rest) =
     (case nm of
        DW_DLV_NO_ENTRY \<Rightarrow>
          (case ty of
             Some (Dwarf_Die n' ty' (Some children) at' bs') \<Rightarrow> flattened_members children
           | _ \<Rightarrow> [])
      | _ \<Rightarrow> [Dwarf_Die nm ty ch at bs])
     @ flattened_members rest"

section \<open>Test data\<close>

text \<open>
  A module mapped at \<open>0x1000\<close>, and global variables whose addresses are the parser's
  base \<open>- (2 ^ 31)\<close> plus \<open>0x10\<close> or \<open>0x20\<close>, as 64-bit values: their runtime addresses
  are \<open>0x1010\<close> and \<open>0x1020\<close>.
\<close>

abbreviation span0 :: span_t where
  "span0 \<equiv> \<lparr>addr = 0x1000, span_size = 0x100\<rparr>"

abbreviation var_f :: PDBGlobalVariable where
  "var_f \<equiv> \<lparr>name = ''f'', address = 0xFFFFFFFF80000010\<rparr>"

abbreviation var_g :: PDBGlobalVariable where
  "var_g \<equiv> \<lparr>name = ''g'', address = 0xFFFFFFFF80000020\<rparr>"

text \<open>A second record named \<open>f\<close>, and a record at the address of \<open>var_f\<close>.\<close>

abbreviation var_f2 :: PDBGlobalVariable where
  "var_f2 \<equiv> \<lparr>name = ''f'', address = 0xFFFFFFFF80000020\<rparr>"

abbreviation var_h :: PDBGlobalVariable where
  "var_h \<equiv> \<lparr>name = ''h'', address = 0xFFFFFFFF80000010\<rparr>"

text \<open>
  Sixteen identifier bytes, the bytes of the name \<open>foo.pdb\<close>, and a name whose
  second byte is not printable.
\<close>

abbreviation guid_bytes :: "byte list" where
  "guid_bytes \<equiv> [0x01, 0x02, 0x03, 0x04, 0x05, 0x06, 0x07, 0x08,
                 0x09, 0x0A, 0x0B, 0x0C, 0x0D, 0x0E, 0x0F, 0x10]"

abbreviation foo_pdb :: "byte list" where
  "foo_pdb \<equiv> [0x66, 0x6F, 0x6F, 0x2E, 0x70, 0x64, 0x62]"

abbreviation bad_name :: "byte list" where
  "bad_name \<equiv> [0x66, 0x07]"

text \<open>
  Debugging-information entries: a member with a one-byte constant as its location, an
  unnamed member whose type is an unnamed structure with the given members, and a named
  structure of 16 bytes.
\<close>

abbreviation location :: "64 word \<Rightarrow> Dwarf_Attribute dw" where
  "location off \<equiv>
     DW_DLV_OK (Dwarf_Attribute (DW_DLV_OK DW_FORM_data1) (DW_DLV_OK off) DW_DLV_ERROR DW_DLV_ERROR)"

abbreviation member_die :: "string \<Rightarrow> 64 word \<Rightarrow> Dwarf_Die" where
  "member_die nm off \<equiv> Dwarf_Die (DW_DLV_OK nm) None (Some []) (location off) DW_DLV_NO_ENTRY"

abbreviation anonymous_die :: "Dwarf_Die list \<Rightarrow> 64 word \<Rightarrow> Dwarf_Die" where
  "anonymous_die members off \<equiv>
     Dwarf_Die DW_DLV_NO_ENTRY
       (Some (Dwarf_Die DW_DLV_NO_ENTRY None (Some members) DW_DLV_NO_ENTRY (DW_DLV_OK 8)))
       (Some []) (location off) DW_DLV_NO_ENTRY"

abbreviation struct_die :: "string \<Rightarrow> Dwarf_Die list \<Rightarrow> Dwarf_Die" where
  "struct_die nm members \<equiv>
     Dwarf_Die (DW_DLV_OK nm) None (Some members) DW_DLV_NO_ENTRY (DW_DLV_OK 16)"

text \<open>A file with one compilation unit, whose root has one structure as its child.\<close>

abbreviation one_struct_file :: dwarf_file where
  "one_struct_file \<equiv>
     \<lparr>dwarf_init_path = DW_DLV_OK (),
      cu_headers = [DW_DLV_OK (Dwarf_Die (DW_DLV_OK ''unit.c'') None
                      (Some [struct_die ''S'' [member_die ''x'' 8]])
                      DW_DLV_NO_ENTRY DW_DLV_NO_ENTRY)],
      cu_headers_error = False\<rparr>"

section \<open>The symbol index: facts\<close>

subsection \<open>The two tables after construction\<close>

lemma map_of_emplace:
  "map_of (emplace k v m) x =
     (case map_of m x of Some y \<Rightarrow> Some y | None \<Rightarrow> if x = k then Some v else None)"
proof (cases "k \<in> fst ` set m")
  case True
  then obtain y where "map_of m k = Some y"
    by (meson map_of_eq_None_iff not_Some_eq)
  then show ?thesis using True by (auto simp: emplace_def split: option.splits)
next
  case False
  then have "map_of m k = None" by (simp add: map_of_eq_None_iff)
  then show ?thesis using False
    by (auto simp: emplace_def map_add_def split: option.splits)
qed

lemma set_emplace_ordered:
  "fst ` set (emplace_ordered k v m) = insert k (fst ` set m)"
proof (induction m)
  case Nil
  then show ?case by simp
next
  case (Cons e m)
  obtain k' v' where e: "e = (k', v')" by (cases e)
  have "fst ` set ((k', v') # emplace_ordered k v m) = insert k' (insert k (fst ` set m))"
    using Cons.IH by simp
  then show ?case by (auto simp: e)
qed

lemma sorted_emplace_ordered:
  "sorted_wrt (<) (map fst m) \<Longrightarrow> sorted_wrt (<) (map fst (emplace_ordered k v m))"
proof (induction m)
  case Nil
  then show ?case by simp
next
  case (Cons e m)
  obtain k' v' where e: "e = (k', v')" by (cases e)
  have "\<forall>x\<in>fst ` set (emplace_ordered k v m). k' < x" if "k' < k" "\<not> k < k'" "k \<noteq> k'"
    using that Cons.prems by (auto simp: set_emplace_ordered e)
  with Cons show ?case by (auto simp: e)
qed

lemma map_of_emplace_ordered:
  "sorted_wrt (<) (map fst m) \<Longrightarrow>
   map_of (emplace_ordered k v m) x =
     (case map_of m x of Some y \<Rightarrow> Some y | None \<Rightarrow> if x = k then Some v else None)"
proof (induction m)
  case Nil
  then show ?case by simp
next
  case (Cons e m)
  obtain k' v' where e: "e = (k', v')" by (cases e)
  show ?case
  proof (cases "k < k'")
    case True
    then have "map_of m k = None"
      using Cons.prems by (force simp: e map_of_eq_None_iff)
    then show ?thesis using True by (auto simp: e split: option.splits)
  next
    case False
    then show ?thesis using Cons by (auto simp: e split: option.splits)
  qed
qed

lemma span_member_foldl [simp]: "span_member (foldl setup_step p gs) = span_member p"
  by (induction gs arbitrary: p) (auto simp: setup_step_def)

lemma get_offset_foldl [simp]: "get_offset (foldl setup_step p gs) = get_offset p"
  by (rule ext) (simp add: get_offset_def)

lemma get_offset_step [simp]: "get_offset (setup_step p g) = get_offset p"
  by (rule ext) (simp add: get_offset_def setup_step_def)

lemma sorted_foldl:
  "sorted_wrt (<) (map fst (symbols_by_offset p)) \<Longrightarrow>
   sorted_wrt (<) (map fst (symbols_by_offset (foldl setup_step p gs)))"
  by (induction gs arbitrary: p) (auto simp: setup_step_def sorted_emplace_ordered)

lemma symbols_foldl:
  "map_of (symbols (foldl setup_step p gs)) n =
     (case map_of (symbols p) n of Some r \<Rightarrow> Some r
      | None \<Rightarrow> find (\<lambda>r. name r = n) gs)"
proof (induction gs arbitrary: p)
  case Nil
  then show ?case by (simp split: option.splits)
next
  case (Cons g gs)
  show ?case
    by (simp add: Cons.IH) (auto simp: setup_step_def map_of_emplace split: option.splits)
qed

lemma by_offset_foldl:
  "sorted_wrt (<) (map fst (symbols_by_offset p)) \<Longrightarrow>
   map_of (symbols_by_offset (foldl setup_step p gs)) a =
     (case map_of (symbols_by_offset p) a of Some r \<Rightarrow> Some r
      | None \<Rightarrow> find (\<lambda>r. get_offset p r = a) gs)"
proof (induction gs arbitrary: p)
  case Nil
  then show ?case by (simp split: option.splits)
next
  case (Cons g gs)
  have s: "sorted_wrt (<) (map fst (symbols_by_offset (setup_step p g)))"
    using Cons.prems by (simp add: setup_step_def sorted_emplace_ordered)
  have m: "map_of (symbols_by_offset (setup_step p g)) a =
     (case map_of (symbols_by_offset p) a of Some y \<Rightarrow> Some y
      | None \<Rightarrow> if a = get_offset p g then Some g else None)"
    using Cons.prems by (simp add: setup_step_def map_of_emplace_ordered)
  show ?case
    by (simp add: Cons.IH [OF s] m) (auto split: option.splits)
qed

lemma lower_bound_le: "lower_bound m a \<le> length m"
  by (induction m a rule: lower_bound.induct) auto

lemma lower_bound_found:
  "sorted_wrt (<) (map fst m) \<Longrightarrow> map_of m a = Some r \<Longrightarrow>
   lower_bound m a < length m \<and> m ! lower_bound m a = (a, r)"
proof (induction m a rule: lower_bound.induct)
  case (1 a)
  then show ?case by simp
next
  case (2 k v m a)
  show ?case
  proof (cases "k < a")
    case True
    then have "a \<noteq> k" by auto
    with 2 True show ?thesis by auto
  next
    case False
    have "k = a"
    proof (rule ccontr)
      assume "k \<noteq> a"
      then have "map_of m a = Some r" using "2.prems" by simp
      then have "a \<in> fst ` set m" by (force dest: map_of_SomeD)
      then have "k < a" using "2.prems"(1) by auto
      with False show False by simp
    qed
    then show ?thesis using "2.prems" by simp
  qed
qed

lemma make_pdb_Some:
  "make_pdb sp err gs = Some p \<Longrightarrow> p = foldl setup_step (Pdb_new sp) gs"
  by (auto simp: make_pdb_def Pdb_setup_def split: if_splits)

lemma built_symbols:
  assumes "make_pdb sp err gs = Some p"
  shows "map_of (symbols p) n = find (\<lambda>r. name r = n) gs"
  using make_pdb_Some [OF assms] by (simp add: symbols_foldl Pdb_new_def)

lemma built_by_offset:
  assumes "make_pdb sp err gs = Some p"
  shows "map_of (symbols_by_offset p) a = find (\<lambda>r. get_offset p r = a) gs"
  using make_pdb_Some [OF assms] by (simp add: by_offset_foldl Pdb_new_def)

lemma built_sorted:
  assumes "make_pdb sp err gs = Some p"
  shows "sorted_wrt (<) (map fst (symbols_by_offset p))"
  using make_pdb_Some [OF assms] by (simp add: sorted_foldl Pdb_new_def)

lemma find_Some_ex: "x \<in> set xs \<Longrightarrow> P x \<Longrightarrow> \<exists>y. find P xs = Some y"
  by (cases "find P xs") (auto simp: find_None_iff)

lemma find_SomeD: "find P xs = Some y \<Longrightarrow> y \<in> set xs \<and> P y"
  by (auto simp: find_Some_iff)

lemma symbol_by_addr_exact:
  assumes "sorted_wrt (<) (map fst (symbols_by_offset p))"
    and "map_of (symbols_by_offset p) a = Some r"
  shows "symbol_by_addr p a = Inr (Some (ModCursor (name r) (a - get_offset p r)))"
proof -
  let ?m = "symbols_by_offset p"
  have lb: "lower_bound ?m a < length ?m" "?m ! lower_bound ?m a = (a, r)"
    using lower_bound_found [OF assms] by simp_all
  then show ?thesis
    by (simp add: symbol_by_addr_def Let_def make_cursor_def)
qed

lemma find_distinct_inj:
  assumes "distinct (map f xs)" "x \<in> set xs" "find (\<lambda>y. f y = f x) xs = Some z"
  shows "z = x"
proof -
  have "z \<in> set xs" "f z = f x" using find_SomeD [OF assms(3)] by simp_all
  then show ?thesis using assms(1,2) by (meson distinct_map inj_onD)
qed

lemma get_offset_inj: "get_offset p x = get_offset p y \<longleftrightarrow> address x = address y"
  by (simp add: get_offset_def)

lemma built_cross_name:
  assumes "make_pdb sp err gs = Some p" "map_of (symbols p) n = Some r"
  shows "\<exists>r'. map_of (symbols_by_offset p) (get_offset p r) = Some r'"
proof -
  have "find (\<lambda>x. name x = n) gs = Some r"
    using assms(2) built_symbols [OF assms(1)] by simp
  then have "r \<in> set gs" using find_SomeD by fastforce
  then show ?thesis
    using find_Some_ex [of r gs "\<lambda>x. get_offset p x = get_offset p r"]
    by (simp add: built_by_offset [OF assms(1)])
qed

lemma built_cross_addr:
  assumes "make_pdb sp err gs = Some p" "map_of (symbols_by_offset p) a = Some r"
  shows "\<exists>r'. map_of (symbols p) (name r) = Some r'"
proof -
  have "find (\<lambda>x. get_offset p x = a) gs = Some r"
    using assms(2) built_by_offset [OF assms(1)] by simp
  then have "r \<in> set gs" using find_SomeD by fastforce
  then show ?thesis
    using find_Some_ex [of r gs "\<lambda>x. name x = name r"]
    by (simp add: built_symbols [OF assms(1)])
qed

lemma find_distinct_mem:
  assumes "distinct (map f xs)"
  shows "find (\<lambda>y. f y = f x) xs = Some x \<longleftrightarrow> x \<in> set xs"
proof
  assume "find (\<lambda>y. f y = f x) xs = Some x"
  then show "x \<in> set xs" using find_SomeD by fastforce
next
  assume x: "x \<in> set xs"
  then obtain z where z: "find (\<lambda>y. f y = f x) xs = Some z"
    using find_Some_ex [of x xs "\<lambda>y. f y = f x"] by auto
  then show "find (\<lambda>y. f y = f x) xs = Some x"
    using find_distinct_inj [OF assms x z] by simp
qed

lemma built_same_entries:
  assumes "make_pdb sp err gs = Some p"
    and "distinct (map name gs)" "distinct (map address gs)"
  shows "map_of (symbols p) (name r) = Some r
     \<longleftrightarrow> map_of (symbols_by_offset p) (get_offset p r) = Some r"
  by (simp add: built_symbols [OF assms(1)] built_by_offset [OF assms(1)]
      get_offset_inj find_distinct_mem [OF assms(2)] find_distinct_mem [OF assms(3)])


lemma find_str_sublist: "find_str nm s \<noteq> None \<longleftrightarrow> sublist s nm"
  by (induction nm) (auto simp: sublist_Cons_right)

lemma find_str_None: "find_str nm s = None \<longleftrightarrow> \<not> sublist s nm"
  using find_str_sublist [of nm s] by blast

lemma find_str_Some: "(\<exists>i. find_str nm s = Some i) \<longleftrightarrow> sublist s nm"
  using find_str_sublist [of nm s] by auto

lemma found_foldl:
  "map_of (foldl (\<lambda>found sym. if P (fst sym) then emplace (fst sym) (g (snd sym)) found
                               else found) acc xs) n =
     (case map_of acc n of Some a \<Rightarrow> Some a
      | None \<Rightarrow> if P n then map_option g (map_of xs n) else None)"
proof (induction xs arbitrary: acc)
  case Nil
  then show ?case by (simp split: option.splits)
next
  case (Cons x xs)
  show ?case
    by (simp add: Cons.IH) (auto simp: map_of_emplace split: option.splits)
qed


lemmas build_defs = make_pdb_def Pdb_setup_def Pdb_new_def setup_step_def emplace_def
  get_offset_def BASE_ADDRESS_def

subsection \<open>The address lookup, case by case\<close>

text \<open>
  With \<open>symbol_by_addr_exact\<close> above (a key equal to the address gives that entry,
  at distance 0 from its own runtime address), these are the cases of the lookup: an
  empty table, an address above every key, an address strictly between two neighbouring
  keys, and an address below the first key.
\<close>

lemma lower_bound_append:
  "\<forall>e\<in>set xs. fst e < a \<Longrightarrow> lower_bound (xs @ ys) a = length xs + lower_bound ys a"
  by (induction xs) auto

lemma symbol_by_addr_empty:
  "symbols_by_offset p = [] \<Longrightarrow> symbol_by_addr p a = Inr None"
  by (simp add: symbol_by_addr_def make_cursor_rev_def make_cursor_def)

lemma symbol_by_addr_past_last:
  assumes "symbols_by_offset p = xs @ [(k, v)]" and "\<forall>e\<in>set (symbols_by_offset p). fst e < a"
  shows "symbol_by_addr p a = Inr (Some (ModCursor (name v) (a - get_offset p v)))"
proof -
  have "lower_bound (symbols_by_offset p) a = length (symbols_by_offset p)"
    using lower_bound_append [of "symbols_by_offset p" a "[]"] assms(2) by simp
  then show ?thesis
    using assms(1) by (simp add: symbol_by_addr_def make_cursor_rev_def make_cursor_def)
qed

lemma symbol_by_addr_between:
  assumes "symbols_by_offset p = xs @ (k1, v1) # (k2, v2) # ys"
    and "sorted_wrt (<) (map fst (symbols_by_offset p))"
    and "k1 < a" "a < k2"
  shows "symbol_by_addr p a = Inr (Some (ModCursor (name v1) (a - get_offset p v1)))"
proof -
  have "\<forall>e\<in>set (xs @ [(k1, v1)]). fst e < a"
    using assms by (auto simp: sorted_wrt_append)
  then have "lower_bound ((xs @ [(k1, v1)]) @ (k2, v2) # ys) a
               = length (xs @ [(k1, v1)]) + lower_bound ((k2, v2) # ys) a"
    by (rule lower_bound_append)
  then have lb: "lower_bound (symbols_by_offset p) a = Suc (length xs)"
    using assms(1,4) by simp
  have "k2 \<noteq> a" using assms(4) by auto
  then show ?thesis
    using assms(1) lb
    by (simp add: symbol_by_addr_def make_cursor_def nth_append)
qed

lemma symbol_by_addr_before_first:
  assumes "symbols_by_offset p = (k, v) # ys" and "a < k"
  shows "symbol_by_addr p a = Inl Decrement_Begin"
proof -
  have "k \<noteq> a" "\<not> k < a" using assms(2) by auto
  then show ?thesis using assms(1) by (simp add: symbol_by_addr_def)
qed

subsection \<open>Address lookup below the first symbol\<close>

text \<open>
  C1. The address lookup takes the first entry whose key is not below the address; an
  equal key gives that entry, a greater key the entry before it, and no such entry gives
  the last one. The index below holds one symbol, at \<open>0x1010\<close>. For the address
  \<open>0x1008\<close> the first entry not below it is the first entry of the table, its key is
  greater, and the source steps the iterator back from \<^verbatim>\<open>begin()\<close> without a test:
  the lookup has no defined result there, where the specification promises one.
\<close>

theorem symbol_by_addr_below_smallest:
  "make_pdb span0 PDB_STATE_OK [var_f]
     = Some \<lparr>span_member = span0, symbols = [(''f'', var_f)],
             symbols_by_offset = [(0x1010, var_f)]\<rparr>
   \<and> symbol_by_addr \<lparr>span_member = span0, symbols = [(''f'', var_f)],
                      symbols_by_offset = [(0x1010, var_f)]\<rparr> 0x1008
     = Inl Decrement_Begin"
  by (simp add: build_defs symbol_by_addr_def)

subsection \<open>Duplicates in the collection of globals\<close>

text \<open>
  C5, as stated, fails: with two records of one name the name table keeps the earlier
  one, not the later; the address table then has an entry for the later record that the
  name table does not have.
\<close>

theorem built_tables_last_write_counterexample:
  "make_pdb span0 PDB_STATE_OK [var_f, var_f2]
     = Some \<lparr>span_member = span0, symbols = [(''f'', var_f)],
             symbols_by_offset = [(0x1010, var_f), (0x1020, var_f2)]\<rparr>
   \<and> map_of (symbols \<lparr>span_member = span0, symbols = [(''f'', var_f)],
             symbols_by_offset = [(0x1010, var_f), (0x1020, var_f2)]\<rparr>) ''f'' = Some var_f
   \<and> map_of (symbols_by_offset \<lparr>span_member = span0, symbols = [(''f'', var_f)],
             symbols_by_offset = [(0x1010, var_f), (0x1020, var_f2)]\<rparr>) 0x1020 = Some var_f2
   \<and> var_f \<noteq> var_f2"
  by (simp add: build_defs)

text \<open>
  C5, amended. Both tables are first-write-wins: a name is mapped to the first record of
  the collection with that name, a runtime address to the first record at that address.
  The runtime address of every entry of the name table is a key of the address table,
  and the name of every entry of the address table is a key of the name table. When the
  collection has no two records of one name and no two at one address, a record is an
  entry of one table exactly when it is an entry of the other.
\<close>

theorem built_tables_first_write_wins:
  assumes "make_pdb sp err gs = Some p"
  shows "(\<forall>n. map_of (symbols p) n = find (\<lambda>r. name r = n) gs)
       \<and> (\<forall>a. map_of (symbols_by_offset p) a = find (\<lambda>r. get_offset p r = a) gs)
       \<and> (\<forall>n r. map_of (symbols p) n = Some r \<longrightarrow>
             (\<exists>r'. map_of (symbols_by_offset p) (get_offset p r) = Some r'))
       \<and> (\<forall>a r. map_of (symbols_by_offset p) a = Some r \<longrightarrow>
             (\<exists>r'. map_of (symbols p) (name r) = Some r'))
       \<and> (distinct (map name gs) \<and> distinct (map address gs) \<longrightarrow>
             (\<forall>r. map_of (symbols p) (name r) = Some r
                \<longleftrightarrow> map_of (symbols_by_offset p) (get_offset p r) = Some r))"
proof (intro conjI allI impI)
  fix n show "map_of (symbols p) n = find (\<lambda>r. name r = n) gs"
    by (rule built_symbols [OF assms])
next
  fix a show "map_of (symbols_by_offset p) a = find (\<lambda>r. get_offset p r = a) gs"
    by (rule built_by_offset [OF assms])
next
  fix n r assume "map_of (symbols p) n = Some r"
  then show "\<exists>r'. map_of (symbols_by_offset p) (get_offset p r) = Some r'"
    by (rule built_cross_name [OF assms])
next
  fix a r assume "map_of (symbols_by_offset p) a = Some r"
  then show "\<exists>r'. map_of (symbols p) (name r) = Some r'"
    by (rule built_cross_addr [OF assms])
next
  fix r assume "distinct (map name gs) \<and> distinct (map address gs)"
  then show "map_of (symbols p) (name r) = Some r
     \<longleftrightarrow> map_of (symbols_by_offset p) (get_offset p r) = Some r"
    using built_same_entries [OF assms] by blast
qed

theorem built_tables_first_write_wins_witness:
  "make_pdb span0 PDB_STATE_OK [var_f, var_g]
     = Some \<lparr>span_member = span0, symbols = [(''f'', var_f), (''g'', var_g)],
             symbols_by_offset = [(0x1010, var_f), (0x1020, var_g)]\<rparr>
   \<and> distinct (map name [var_f, var_g]) \<and> distinct (map address [var_f, var_g])
   \<and> map_of [(''f'', var_f), (''g'', var_g)] ''g'' = Some var_g
   \<and> map_of [(0x1010 :: 64 word, var_f), (0x1020, var_g)] 0x1020 = Some var_g
   \<and> find (\<lambda>r. name r = ''g'') [var_f, var_g] = Some var_g"
  (is "?mk = Some ?P \<and> ?rest")
proof -
  have h: "?mk = Some ?P" by (simp add: build_defs)
  from built_tables_first_write_wins [OF h]
  have "map_of (symbols ?P) ''g'' = find (\<lambda>r. name r = ''g'') [var_f, var_g]" by blast
  with h show ?thesis by simp
qed

subsection \<open>Name lookup followed by address lookup\<close>

text \<open>
  C6, as stated, fails: two symbols at one address. The name lookup of \<open>h\<close> gives
  \<open>0x1010\<close>, and the address lookup there gives \<open>f\<close>, the record stored first.
\<close>

theorem name_then_addr_lookup_counterexample:
  "make_pdb span0 PDB_STATE_OK [var_f, var_h]
     = Some \<lparr>span_member = span0, symbols = [(''f'', var_f), (''h'', var_h)],
             symbols_by_offset = [(0x1010, var_f)]\<rparr>
   \<and> symbol_by_name \<lparr>span_member = span0, symbols = [(''f'', var_f), (''h'', var_h)],
                      symbols_by_offset = [(0x1010, var_f)]\<rparr> ''h'' = Some 0x1010
   \<and> symbol_by_addr \<lparr>span_member = span0, symbols = [(''f'', var_f), (''h'', var_h)],
                      symbols_by_offset = [(0x1010, var_f)]\<rparr> 0x1010
       = Inr (Some (ModCursor ''f'' 0))"
  by (simp add: build_defs symbol_by_name_def symbol_by_addr_def make_cursor_def)

text \<open>
  C6, amended. When the name lookup resolves a name to an address, the address lookup at
  that address returns offset 0 and the name of the first record of the collection at
  that runtime address; this is the name looked up when no two records of the collection
  have the same address.
\<close>

theorem name_then_addr_lookup:
  assumes "make_pdb sp err gs = Some p"
    and "symbol_by_name p n = Some a"
  shows "(\<exists>r. find (\<lambda>r. get_offset p r = a) gs = Some r
            \<and> symbol_by_addr p a = Inr (Some (ModCursor (name r) 0)))
       \<and> (distinct (map address gs) \<longrightarrow> symbol_by_addr p a = Inr (Some (ModCursor n 0)))"
proof -
  obtain var where var: "map_of (symbols p) n = Some var" "a = get_offset p var"
    using assms(2) by (auto simp: symbol_by_name_def split: option.splits)
  have fv: "find (\<lambda>r. name r = n) gs = Some var"
    using var(1) built_symbols [OF assms(1)] by simp
  then have vin: "var \<in> set gs" "name var = n" using find_SomeD by fastforce+
  then obtain r where r: "find (\<lambda>r. get_offset p r = a) gs = Some r"
    using find_Some_ex [of var gs "\<lambda>r. get_offset p r = a"] var(2) by auto
  then have ra: "get_offset p r = a" using find_SomeD by fastforce
  have "map_of (symbols_by_offset p) a = Some r"
    using r built_by_offset [OF assms(1)] by simp
  then have res: "symbol_by_addr p a = Inr (Some (ModCursor (name r) 0))"
    using symbol_by_addr_exact [OF built_sorted [OF assms(1)]] ra by simp
  have "r = var" if d: "distinct (map address gs)"
  proof -
    have "find (\<lambda>y. address y = address var) gs = Some r"
      using r var(2) by (simp add: get_offset_inj)
    then show ?thesis using find_distinct_inj [OF d vin(1)] by simp
  qed
  then show ?thesis using res r vin(2) by auto
qed

theorem name_then_addr_lookup_witness:
  "make_pdb span0 PDB_STATE_OK [var_f, var_g]
     = Some \<lparr>span_member = span0, symbols = [(''f'', var_f), (''g'', var_g)],
             symbols_by_offset = [(0x1010, var_f), (0x1020, var_g)]\<rparr>
   \<and> symbol_by_name \<lparr>span_member = span0, symbols = [(''f'', var_f), (''g'', var_g)],
             symbols_by_offset = [(0x1010, var_f), (0x1020, var_g)]\<rparr> ''g'' = Some 0x1020
   \<and> distinct (map address [var_f, var_g])
   \<and> symbol_by_addr \<lparr>span_member = span0, symbols = [(''f'', var_f), (''g'', var_g)],
             symbols_by_offset = [(0x1010, var_f), (0x1020, var_g)]\<rparr> 0x1020
       = Inr (Some (ModCursor ''g'' 0))"
  (is "?mk = Some ?P \<and> ?byname \<and> ?dist \<and> ?res")
proof -
  have h1: "?mk = Some ?P" by (simp add: build_defs)
  have h2: ?byname by (simp add: symbol_by_name_def get_offset_def BASE_ADDRESS_def)
  have h3: ?dist by simp
  from name_then_addr_lookup [OF h1 h2] h3 have ?res by blast
  with h1 h2 h3 show ?thesis by blast
qed

subsection \<open>Substring lookup\<close>

text \<open>
  C7. For every index and every substring, \<^verbatim>\<open>symbols_that_contains\<close> returns the
  absent outcome exactly when no symbol name contains the substring; otherwise it returns
  a non-empty mapping that holds a name exactly when the name is in the index and
  contains the substring somewhere, and maps it to the runtime address of its record.
\<close>

theorem symbols_that_contains_exact:
  "case symbols_that_contains p s of
     None \<Rightarrow> \<forall>n r. map_of (symbols p) n = Some r \<longrightarrow> \<not> sublist s n
   | Some found \<Rightarrow>
       found \<noteq> []
     \<and> (\<forall>n a. map_of found n = Some a \<longleftrightarrow>
            sublist s n \<and> (\<exists>r. map_of (symbols p) n = Some r \<and> a = get_offset p r))"
proof -
  define found where "found = foldl (\<lambda>found sym.
                     if find_str (fst sym) s \<noteq> None
                     then emplace (fst sym) (get_offset p (snd sym)) found
                     else found) [] (symbols p)"
  have m: "map_of found n =
      (if sublist s n then map_option (get_offset p) (map_of (symbols p) n) else None)" for n
    unfolding found_def
    using found_foldl [of "\<lambda>n. find_str n s \<noteq> None" "get_offset p" "[]" "symbols p" n]
    by (simp add: find_str_None find_str_Some)
  have r: "symbols_that_contains p s = (if found = [] then None else Some found)"
    by (simp add: symbols_that_contains_def found_def Let_def)
  show ?thesis
  proof (cases "found = []")
    case True
    then have "\<forall>n. map_of found n = None" by simp
    then have "\<forall>n r. map_of (symbols p) n = Some r \<longrightarrow> \<not> sublist s n"
      by (auto simp: m split: if_splits)
    then show ?thesis using r True by simp
  next
    case False
    then show ?thesis using r by (auto simp: m)
  qed
qed

theorem symbols_that_contains_exact_witness:
  "symbols_that_contains \<lparr>span_member = span0, symbols = [(''f'', var_f), (''g'', var_g)],
             symbols_by_offset = [(0x1010, var_f), (0x1020, var_g)]\<rparr> ''g''
     = Some [(''g'', 0x1020)]
   \<and> sublist ''g'' ''g'' \<and> map_of [(''f'', var_f), (''g'', var_g)] ''g'' = Some var_g
   \<and> symbols_that_contains \<lparr>span_member = span0, symbols = [(''f'', var_f), (''g'', var_g)],
             symbols_by_offset = [(0x1010, var_f), (0x1020, var_g)]\<rparr> ''zzz'' = None
   \<and> \<not> sublist ''zzz'' ''f''"
  (is "?c1 \<and> ?c2 \<and> ?c3 \<and> ?c4 \<and> ?c5")
proof -
  have c1: ?c1
    by (simp add: symbols_that_contains_def emplace_def get_offset_def BASE_ADDRESS_def)
  have c4: ?c4
    by (simp add: symbols_that_contains_def emplace_def)
  have c3: ?c3 by simp
  from symbols_that_contains_exact
    [of "\<lparr>span_member = span0, symbols = [(''f'', var_f), (''g'', var_g)],
             symbols_by_offset = [(0x1010, var_f), (0x1020, var_g)]\<rparr>" "''zzz''"] c4
  have "\<not> sublist ''zzz'' ''f''" by simp
  moreover have ?c2 by simp
  ultimately show ?thesis using c1 c3 c4 by blast
qed

section \<open>The signature scanner: facts\<close>

subsection \<open>The helpers\<close>

lemma search_prefix: "search (pat @ xs) pat = Some 0"
proof (cases "pat @ xs")
  case Nil
  then show ?thesis by simp
next
  case (Cons a l)
  have "prefix pat (pat @ xs)" by simp
  then show ?thesis unfolding Cons by simp
qed

lemma memchr_found:
  "c \<notin> set nm \<Longrightarrow> length nm < n \<Longrightarrow>
   memchr (pre @ nm @ c # rest) (length pre) c n = Inr (Some (length pre + length nm))"
proof (induction nm arbitrary: pre n)
  case Nil
  then obtain n' where "n = Suc n'" by (cases n) auto
  then show ?case by simp
next
  case (Cons b nm)
  then obtain n' where n: "n = Suc n'" by (cases n) auto
  have "memchr ((pre @ [b]) @ nm @ c # rest) (length (pre @ [b])) c n'
          = Inr (Some (length (pre @ [b]) + length nm))"
    using Cons.prems n by (intro Cons.IH) auto
  then show ?case using Cons.prems n by auto
qed

lemma memchr_past_end:
  "c \<notin> set (drop p mem) \<Longrightarrow> length mem < p + n \<Longrightarrow> p \<le> length mem \<Longrightarrow>
   memchr mem p c n = Inl Read_Past_End"
proof (induction n arbitrary: p)
  case 0
  then show ?case by simp
next
  case (Suc n)
  show ?case
  proof (cases "length mem \<le> p")
    case True
    then show ?thesis by simp
  next
    case False
    then have "mem ! p \<in> set (drop p mem)"
      by (metis Cons_nth_drop_Suc list.set_intros(1) not_le)
    then have ne: "mem ! p \<noteq> c" using Suc.prems(1) by auto
    have "set (drop (Suc p) mem) \<subseteq> set (drop p mem)"
      by (metis drop_Suc set_drop_subset tl_drop drop_drop plus_1_eq_Suc)
    then have "memchr mem (Suc p) c n = Inl Read_Past_End"
      using Suc.prems False by (intro Suc.IH) auto
    then show ?thesis using False ne by simp
  qed
qed

lemma isprint_not_nul: "isprint b \<Longrightarrow> b \<noteq> 0"
  by (auto simp: isprint_def)

lemma printable_no_nul: "list_all isprint nm \<Longrightarrow> 0 \<notin> set nm"
  by (auto simp: list_all_iff dest: isprint_not_nul)

lemma bit8: "bit (b :: 8 word) (8 + n) = False" "bit (b :: 8 word) (16 + n) = False"
  "bit (b :: 8 word) (24 + n) = False"
  by (auto dest: bit_imp_le_length)

lemma be32_le32: "write_be32 (read_le32 (b0 # b1 # b2 # b3 # r)) = [b3, b2, b1, b0]"
  unfolding write_be32_def read_le32_def
  by (simp; intro conjI; rule bit_word_eqI; auto simp: bit_simps bit8)

lemma be16_le16: "write_be16 (read_le16 (b0 # b1 # r)) = [b1, b0]"
  unfolding write_be16_def read_le16_def
  by (simp; intro conjI; rule bit_word_eqI; auto simp: bit_simps bit8)

lemma be32_le32_rev: "4 \<le> length p \<Longrightarrow> write_be32 (read_le32 p) = rev (take 4 p)"
proof -
  assume "4 \<le> length p"
  then obtain b0 b1 b2 b3 r where "p = b0 # b1 # b2 # b3 # r"
    by (auto simp: numeral_eq_Suc Suc_le_length_iff)
  then show ?thesis by (simp add: be32_le32)
qed

lemma be16_le16_rev: "2 \<le> length p \<Longrightarrow> write_be16 (read_le16 p) = rev (take 2 p)"
proof -
  assume "2 \<le> length p"
  then obtain b0 b1 r where "p = b0 # b1 # r"
    by (auto simp: numeral_eq_Suc Suc_le_length_iff)
  then show ?thesis by (simp add: be16_le16)
qed

lemma read_le32_le32: "read_le32 (le32 x @ r) = x"
proof (rule bit_word_eqI)
  fix n assume n: "n < LENGTH(32)"
  then consider "n < 8" | "8 \<le> n" "n < 16" | "16 \<le> n" "n < 24" | "24 \<le> n" "n < 32"
    by fastforce
  then show "bit (read_le32 (le32 x @ r)) n = bit x n"
  proof cases
    case 1
    then show ?thesis by (auto simp: le32_def read_le32_def bit_simps)
  next
    case 2
    then show ?thesis by (auto simp: le32_def read_le32_def bit_simps)
  next
    case 3
    then show ?thesis by (auto simp: le32_def read_le32_def bit_simps)
  next
    case 4
    then show ?thesis by (auto simp: le32_def read_le32_def bit_simps)
  qed
qed

lemma length_le32 [simp]: "length (le32 x) = 4"
  by (simp add: le32_def)

lemma length_rsds_magic [simp]: "length rsds_magic = 4"
  by (simp add: rsds_magic_def)

lemma length_hex_convert: "length (hex_convert chars bs) = 2 * length bs"
  by (induction bs) (auto simp: hex_convert_def)

lemma nibble_high: "unat (drop_bit 4 (b :: byte)) < 16"
proof -
  have "unat (drop_bit 4 b) = unat b div 16"
    by (simp add: drop_bit_eq_div unat_div)
  moreover have "unat b < 256" using unsigned_less [of b, where ?'a = nat] by simp
  ultimately show ?thesis by simp
qed

lemma nibble_low: "unat ((b :: byte) AND 0x0F) < 16"
proof -
  have "b AND 0x0F \<le> 0x0F" by (rule word_and_le1)
  then have "unat (b AND 0x0F) \<le> 15" by (simp add: word_le_nat_alt)
  then show ?thesis by simp
qed

lemma hex_convert_chars:
  "length chars = 16 \<Longrightarrow> set (hex_convert chars bs) \<subseteq> set chars"
  by (induction bs) (auto simp: hex_convert_def nibble_high nibble_low)

subsection \<open>One round of the loop\<close>

lemma read_pdb_accepts:
  assumes "search src rsds_magic = Some pos"
    and "drop pos src = rsds_magic @ g @ le32 N @ nm @ [0] @ rest"
    and "length g = 16" "nm \<noteq> []" "list_all isprint nm"
  shows "read_pdb src =
     Inr \<lparr>guid = hex_convert chars_upper
                   (rev (take 4 g) @ rev (take 2 (drop 4 g)) @ rev (take 2 (drop 6 g)) @ drop 8 g)
                 @ to_string (unat N),
          pdb_name = map byte_char nm\<rparr>"
proof -
  let ?r = "rsds_magic @ g @ le32 N @ nm @ [0] @ rest"
  have len: "\<not> length ?r < 4 + 16 + 4 + 2"
    using assms(3,4) by (cases nm) auto
  have "memchr ((rsds_magic @ g @ le32 N) @ nm @ 0 # rest) (length (rsds_magic @ g @ le32 N)) 0
          (length ?r) = Inr (Some (length (rsds_magic @ g @ le32 N) + length nm))"
    by (rule memchr_found) (use assms in \<open>auto dest: printable_no_nul\<close>)
  then have m: "memchr ?r (4 + 16 + 4) 0 (length ?r) = Inr (Some (24 + length nm))"
    using assms(3) by simp
  have nmb: "take (24 + length nm - (4 + 16 + 4)) (drop (4 + 16 + 4) ?r) = nm"
    using assms(3) by simp
  have g1: "write_be32 (read_le32 (drop (4 + 0) ?r)) = rev (take 4 g)"
    using assms(3) by (simp add: be32_le32_rev)
  have g2: "write_be16 (read_le16 (drop (4 + 4) ?r)) = rev (take 2 (drop 4 g))"
    using assms(3) by (simp add: be16_le16_rev)
  have g3: "write_be16 (read_le16 (drop (4 + 6) ?r)) = rev (take 2 (drop 6 g))"
    using assms(3) by (simp add: be16_le16_rev)
  have g4: "take 8 (drop (4 + 8) ?r) = drop 8 g"
    using assms(3) by simp
  have ag: "read_le32 (drop (4 + 16) ?r) = N"
    using assms(3) by (simp add: read_le32_le32)
  have nr: "read_pdb_name nm = Some (map byte_char nm)"
    using assms(5) by (simp add: read_pdb_name_def)
  show ?thesis
    by (subst read_pdb.simps)
       (simp only: assms(1,2) option.case len if_False m sum.case nmb nr g1 g2 g3 g4 ag)
qed

lemma read_pdb_rejects:
  assumes "search src rsds_magic = Some pos"
    and "drop pos src = rsds_magic @ hdr @ nm @ [0] @ rest"
    and "length hdr = 20" "0 \<notin> set nm" "\<not> list_all isprint nm"
  shows "read_pdb src = read_pdb (drop (pos + 1) src)"
proof -
  let ?r = "rsds_magic @ hdr @ nm @ [0] @ rest"
  have "nm \<noteq> []" using assms(5) by auto
  then have len: "\<not> length ?r < 4 + 16 + 4 + 2"
    using assms(3) by (cases nm) auto
  have "memchr ((rsds_magic @ hdr) @ nm @ 0 # rest) (length (rsds_magic @ hdr)) 0
          (length ?r) = Inr (Some (length (rsds_magic @ hdr) + length nm))"
    by (rule memchr_found) (use assms in auto)
  then have m: "memchr ?r (4 + 16 + 4) 0 (length ?r) = Inr (Some (24 + length nm))"
    using assms(3) by simp
  have nmb: "take (24 + length nm - (4 + 16 + 4)) (drop (4 + 16 + 4) ?r) = nm"
    using assms(3) by simp
  have nr: "read_pdb_name nm = None"
    using assms(5) by (simp add: read_pdb_name_def)
  have d: "drop 1 ?r = drop (pos + 1) src"
    unfolding assms(2) [symmetric] by simp
  show ?thesis
    by (subst read_pdb.simps)
       (simp only: assms(1,2) option.case len if_False m sum.case nmb nr d)
qed

lemma read_pdb_too_small:
  assumes "search src rsds_magic = Some pos" "length src - pos < 4 + 16 + 4 + 2"
  shows "read_pdb src = Inl Too_Small"
  by (subst read_pdb.simps) (use assms in simp)

lemma read_pdb_unterminated:
  assumes "search src rsds_magic = Some pos" "\<not> length src - pos < 4 + 16 + 4 + 2"
    and "0 \<notin> set (drop (pos + 24) src)"
  shows "read_pdb src = Inl Read_Past_End"
proof -
  have "memchr (drop pos src) 24 0 (length (drop pos src)) = Inl Read_Past_End"
    using assms by (intro memchr_past_end) (auto simp: add.commute)
  then show ?thesis
    by (subst read_pdb.simps) (use assms in simp)
qed

lemma memchr_Inl: "memchr mem p c n = Inl e \<Longrightarrow> e = Read_Past_End"
  by (induction mem p c n rule: memchr.induct) (auto split: if_splits)

lemma memchr_not_None:
  "n \<noteq> 0 \<Longrightarrow> length mem < p + n \<Longrightarrow> memchr mem p c n \<noteq> Inr None"
proof (induction n arbitrary: p)
  case 0
  then show ?case by simp
next
  case (Suc n)
  show ?case
  proof (cases "n = 0")
    case True
    then show ?thesis using Suc.prems by auto
  next
    case False
    then show ?thesis using Suc.prems Suc.IH [of "Suc p"] by auto
  qed
qed

lemma read_pdb_never_missing_terminator: "read_pdb src \<noteq> Inl Missing_Terminator"
proof (induction src rule: read_pdb.induct)
  case (1 src)
  show ?case
  proof (cases "search src rsds_magic")
    case None
    then show ?thesis by (subst read_pdb.simps) simp
  next
    case (Some pos)
    show ?thesis
    proof (cases "length (drop pos src) < 4 + 16 + 4 + 2")
      case True
      then show ?thesis using Some by (subst read_pdb.simps) simp
    next
      case False
      then have nn: "memchr (drop pos src) (4 + 16 + 4) 0 (length (drop pos src)) \<noteq> Inr None"
        by (intro memchr_not_None) auto
      show ?thesis
      proof (cases "memchr (drop pos src) (4 + 16 + 4) 0 (length (drop pos src))")
        case (Inl e)
        then have "e = Read_Past_End" by (rule memchr_Inl)
        then show ?thesis using Some False Inl by (subst read_pdb.simps) simp
      next
        case (Inr r)
        then obtain name_end where r: "r = Some name_end" using nn by (cases r) auto
        show ?thesis
          using "1.IH" [OF Some False Inr [unfolded r]] Some False Inr r
          by (subst read_pdb.simps) (auto split: option.splits)
      qed
    qed
  qed
qed

subsection \<open>A well-formed record\<close>

text \<open>
  C2, as stated, fails for the empty name: marker, identifier, age and an empty
  null-terminated name are 25 bytes, one less than the minimum the scanner asks for.
\<close>

theorem read_pdb_empty_name_counterexample:
  "read_pdb (rsds_magic @ guid_bytes @ le32 1203 @ [] @ [0]) = Inl Too_Small"
  by (simp add: read_pdb.simps rsds_magic_def le32_def)

text \<open>
  C2, amended. For every buffer made of the marker \<open>RSDS\<close>, a 16-byte identifier, a
  little-endian 4-byte age \<open>N\<close> and a printable null-terminated name of at least one
  character (whatever follows the terminator), the scanner succeeds. It returns the name
  without its terminator and an identifier string that is 32 uppercase hexadecimal
  characters followed by the decimal digits of \<open>N\<close>; the 32 characters render the
  first four identifier bytes in reverse order, then the next two in reverse order, then
  the next two in reverse order, then the last eight as they are.
\<close>

theorem read_pdb_roundtrip:
  assumes "length g = 16" "nm \<noteq> []" "list_all isprint nm"
  shows "read_pdb (rsds_magic @ g @ le32 N @ nm @ [0] @ rest) =
           Inr \<lparr>guid = hex_convert chars_upper
                         (rev (take 4 g) @ rev (take 2 (drop 4 g)) @ rev (take 2 (drop 6 g))
                          @ drop 8 g)
                       @ to_string (unat N),
                pdb_name = map byte_char nm\<rparr>
       \<and> length (hex_convert chars_upper
                   (rev (take 4 g) @ rev (take 2 (drop 4 g)) @ rev (take 2 (drop 6 g))
                    @ drop 8 g)) = 32
       \<and> set (hex_convert chars_upper
                (rev (take 4 g) @ rev (take 2 (drop 4 g)) @ rev (take 2 (drop 6 g))
                 @ drop 8 g)) \<subseteq> set ''0123456789ABCDEF''"
proof (intro conjI)
  let ?src = "rsds_magic @ g @ le32 N @ nm @ [0] @ rest"
  have "search ?src rsds_magic = Some 0" by (rule search_prefix)
  moreover have "drop 0 ?src = ?src" by simp
  ultimately show "read_pdb ?src =
           Inr \<lparr>guid = hex_convert chars_upper
                         (rev (take 4 g) @ rev (take 2 (drop 4 g)) @ rev (take 2 (drop 6 g))
                          @ drop 8 g)
                       @ to_string (unat N),
                pdb_name = map byte_char nm\<rparr>"
    using assms by (rule read_pdb_accepts)
next
  show "length (hex_convert chars_upper
                   (rev (take 4 g) @ rev (take 2 (drop 4 g)) @ rev (take 2 (drop 6 g))
                    @ drop 8 g)) = 32"
    using assms(1) by (simp add: length_hex_convert)
next
  have "set (hex_convert chars_upper
                (rev (take 4 g) @ rev (take 2 (drop 4 g)) @ rev (take 2 (drop 6 g))
                 @ drop 8 g)) \<subseteq> set chars_upper"
    by (rule hex_convert_chars) (simp add: chars_upper_def)
  then show "set (hex_convert chars_upper
                (rev (take 4 g) @ rev (take 2 (drop 4 g)) @ rev (take 2 (drop 6 g))
                 @ drop 8 g)) \<subseteq> set ''0123456789ABCDEF''"
    by (simp only: chars_upper_def)
qed

theorem read_pdb_roundtrip_witness:
  "length guid_bytes = 16 \<and> foo_pdb \<noteq> [] \<and> list_all isprint foo_pdb
   \<and> read_pdb (rsds_magic @ guid_bytes @ le32 1203 @ foo_pdb @ [0] @ [])
       = Inr \<lparr>guid = ''0403020106050807090A0B0C0D0E0F101203'', pdb_name = ''foo.pdb''\<rparr>"
proof -
  have h1: "length guid_bytes = 16" by simp
  have h2: "foo_pdb \<noteq> []" by simp
  have h3: "list_all isprint foo_pdb" by (simp add: isprint_def)
  have e1: "hex_convert chars_upper
              (rev (take 4 guid_bytes) @ rev (take 2 (drop 4 guid_bytes))
               @ rev (take 2 (drop 6 guid_bytes)) @ drop 8 guid_bytes)
            @ to_string (unat (1203 :: 32 word)) = ''0403020106050807090A0B0C0D0E0F101203''"
    by (simp add: hex_convert_def chars_upper_def)
  have e2: "map byte_char foo_pdb = ''foo.pdb''" by code_simp
  from read_pdb_roundtrip [OF h1 h2 h3, of 1203 "[]"]
  have "read_pdb (rsds_magic @ guid_bytes @ le32 1203 @ foo_pdb @ [0] @ [])
       = Inr \<lparr>guid = ''0403020106050807090A0B0C0D0E0F101203'', pdb_name = ''foo.pdb''\<rparr>"
    by (simp only: e1 e2)
  with h1 h2 h3 show ?thesis by blast
qed

subsection \<open>Malformed candidates\<close>

text \<open>
  Two of the three kinds of malformed candidate behave as the specification says. When
  the first marker is followed by identifier, age and a name that is terminated inside
  the buffer and has a non-printable byte, the scanner rejects that candidate only and
  goes on one byte past the marker: the result is the result of the scan of the rest, so
  that a later well-formed record is found and returned. When fewer than
  \<open>4 + 16 + 4 + 2\<close> bytes remain at the first marker, the scan ends at once with
  failure.
\<close>

lemma read_pdb_rejects_and_resumes:
  "(search src rsds_magic = Some pos
      \<and> drop pos src = rsds_magic @ hdr @ nm @ [0] @ rest
      \<and> length hdr = 16 + 4 \<and> 0 \<notin> set nm \<and> \<not> list_all isprint nm
    \<longrightarrow> read_pdb src = read_pdb (drop (pos + 1) src)
      \<and> (search (drop (pos + 1) src) rsds_magic = Some pos'
           \<and> drop pos' (drop (pos + 1) src) = rsds_magic @ g @ le32 N @ nm' @ [0] @ rest'
           \<and> length g = 16 \<and> nm' \<noteq> [] \<and> list_all isprint nm'
         \<longrightarrow> read_pdb src =
               Inr \<lparr>guid = hex_convert chars_upper
                         (rev (take 4 g) @ rev (take 2 (drop 4 g)) @ rev (take 2 (drop 6 g))
                          @ drop 8 g)
                       @ to_string (unat N),
                    pdb_name = map byte_char nm'\<rparr>))
   \<and> (search src rsds_magic = Some pos \<and> length src - pos < 4 + 16 + 4 + 2
    \<longrightarrow> read_pdb src = Inl Too_Small)"
proof (intro conjI impI)
  assume a: "search src rsds_magic = Some pos
      \<and> drop pos src = rsds_magic @ hdr @ nm @ [0] @ rest
      \<and> length hdr = 16 + 4 \<and> 0 \<notin> set nm \<and> \<not> list_all isprint nm"
  then show r: "read_pdb src = read_pdb (drop (pos + 1) src)"
    by (intro read_pdb_rejects [of src pos hdr nm rest]) simp_all
  assume b: "search (drop (pos + 1) src) rsds_magic = Some pos'
           \<and> drop pos' (drop (pos + 1) src) = rsds_magic @ g @ le32 N @ nm' @ [0] @ rest'
           \<and> length g = 16 \<and> nm' \<noteq> [] \<and> list_all isprint nm'"
  then have "read_pdb (drop (pos + 1) src) =
               Inr \<lparr>guid = hex_convert chars_upper
                         (rev (take 4 g) @ rev (take 2 (drop 4 g)) @ rev (take 2 (drop 6 g))
                          @ drop 8 g)
                       @ to_string (unat N),
                    pdb_name = map byte_char nm'\<rparr>"
    by (intro read_pdb_accepts [of _ pos' g N nm' rest']) simp_all
  then show "read_pdb src =
               Inr \<lparr>guid = hex_convert chars_upper
                         (rev (take 4 g) @ rev (take 2 (drop 4 g)) @ rev (take 2 (drop 6 g))
                          @ drop 8 g)
                       @ to_string (unat N),
                    pdb_name = map byte_char nm'\<rparr>"
    using r by simp
next
  assume "search src rsds_magic = Some pos \<and> length src - pos < 4 + 16 + 4 + 2"
  then show "read_pdb src = Inl Too_Small"
    by (intro read_pdb_too_small [of src pos]) simp_all
qed

lemma read_pdb_rejects_and_resumes_example:
  "search ((rsds_magic @ (guid_bytes @ le32 7) @ bad_name @ [0])
            @ rsds_magic @ guid_bytes @ le32 1203 @ foo_pdb @ [0]) rsds_magic = Some 0
   \<and> length (guid_bytes @ le32 7) = 16 + 4 \<and> 0 \<notin> set bad_name \<and> \<not> list_all isprint bad_name
   \<and> length guid_bytes = 16 \<and> foo_pdb \<noteq> [] \<and> list_all isprint foo_pdb
   \<and> read_pdb ((rsds_magic @ (guid_bytes @ le32 7) @ bad_name @ [0])
                @ rsds_magic @ guid_bytes @ le32 1203 @ foo_pdb @ [0])
       = Inr \<lparr>guid = ''0403020106050807090A0B0C0D0E0F101203'', pdb_name = ''foo.pdb''\<rparr>
   \<and> search (rsds_magic @ guid_bytes) rsds_magic = Some 0
   \<and> length (rsds_magic @ guid_bytes) - 0 < 4 + 16 + 4 + 2
   \<and> read_pdb (rsds_magic @ guid_bytes) = Inl Too_Small"
proof -
  let ?good = "rsds_magic @ guid_bytes @ le32 1203 @ foo_pdb @ [0]"
  let ?src = "(rsds_magic @ (guid_bytes @ le32 7) @ bad_name @ [0]) @ ?good"
  have a1: "search ?src rsds_magic = Some 0" by (simp add: rsds_magic_def)
  have a2: "drop 0 ?src = rsds_magic @ (guid_bytes @ le32 7) @ bad_name @ [0] @ ?good" by simp
  have a3: "length (guid_bytes @ le32 7) = 16 + 4" by simp
  have a4: "0 \<notin> set bad_name" by simp
  have a5: "\<not> list_all isprint bad_name" by (simp add: isprint_def)
  have b1: "search (drop (0 + 1) ?src) rsds_magic = Some 26"
    by (simp add: rsds_magic_def le32_def)
  have b2: "drop 26 (drop (0 + 1) ?src) = rsds_magic @ guid_bytes @ le32 1203 @ foo_pdb @ [0] @ []"
    by (simp add: rsds_magic_def le32_def)
  have b3: "length guid_bytes = 16" by simp
  have b4: "foo_pdb \<noteq> []" by simp
  have b5: "list_all isprint foo_pdb" by (simp add: isprint_def)
  have c1: "search (rsds_magic @ guid_bytes) rsds_magic = Some 0" by (simp add: rsds_magic_def)
  have c2: "length (rsds_magic @ guid_bytes) - 0 < 4 + 16 + 4 + 2" by simp
  have e1: "hex_convert chars_upper
              (rev (take 4 guid_bytes) @ rev (take 2 (drop 4 guid_bytes))
               @ rev (take 2 (drop 6 guid_bytes)) @ drop 8 guid_bytes)
            @ to_string (unat (1203 :: 32 word)) = ''0403020106050807090A0B0C0D0E0F101203''"
    by (simp add: hex_convert_def chars_upper_def)
  have e2: "map byte_char foo_pdb = ''foo.pdb''" by code_simp
  have "read_pdb ?src =
          Inr \<lparr>guid = hex_convert chars_upper
              (rev (take 4 guid_bytes) @ rev (take 2 (drop 4 guid_bytes))
               @ rev (take 2 (drop 6 guid_bytes)) @ drop 8 guid_bytes)
            @ to_string (unat (1203 :: 32 word)), pdb_name = map byte_char foo_pdb\<rparr>"
    using read_pdb_rejects_and_resumes
      [of ?src 0 "guid_bytes @ le32 7" bad_name ?good 26 guid_bytes 1203 foo_pdb "[]"]
      a1 a2 a3 a4 a5 b1 b2 b3 b4 b5
    by blast
  then have r: "read_pdb ?src
       = Inr \<lparr>guid = ''0403020106050807090A0B0C0D0E0F101203'', pdb_name = ''foo.pdb''\<rparr>"
    by (simp only: e1 e2)
  have t: "read_pdb (rsds_magic @ guid_bytes) = Inl Too_Small"
    using read_pdb_rejects_and_resumes [of "rsds_magic @ guid_bytes" 0] c1 c2 by blast
  from a1 a3 a4 a5 b3 b4 b5 r c1 c2 t show ?thesis by blast
qed

text \<open>
  C4. A candidate with no null terminator after the fixed prefix is to be rejected like
  the other malformed candidates, and the scan is to go on inside the buffer. The buffer
  below is the marker followed by 22 bytes none of which is zero: 26 bytes, so the
  candidate passes the minimum-size check. The scanner neither rejects the candidate nor
  resumes: its search for the terminator, given the distance from the marker as its
  count, leaves the buffer at offset 26. It is the wrong count of the terminator search,
  met on the path of the unterminated name; within the buffer the source never reaches
  its own return for a missing terminator (\<open>read_pdb_never_missing_terminator\<close>).
\<close>

theorem read_pdb_unterminated_candidate:
  "length (rsds_magic @ guid_bytes @ [0x41, 0x41, 0x41, 0x41, 0x41, 0x41]) = 26
   \<and> search (rsds_magic @ guid_bytes @ [0x41, 0x41, 0x41, 0x41, 0x41, 0x41]) rsds_magic
       = Some 0
   \<and> read_pdb (rsds_magic @ guid_bytes @ [0x41, 0x41, 0x41, 0x41, 0x41, 0x41])
       = Inl Read_Past_End"
  by (simp add: read_pdb.simps rsds_magic_def)

subsection \<open>The search for the terminator\<close>

text \<open>
  C9. The search for the terminator is to stay inside the buffer. The source calls
  \<^verbatim>\<open>memchr(&rsds[4 + 16 + 4], 0x00, size)\<close> with \<open>size\<close> the distance from the marker
  to the end of the buffer, not from the name to the end: the 24 bytes after the buffer
  are within the range searched. The buffer below is a record cut off inside the name,
  30 bytes with no zero after the fixed prefix; it passes the minimum-size check, and the
  search reads the byte at offset 30. By \<open>read_pdb_unterminated\<close> the same happens
  for every buffer whose first candidate passes the check and has no zero byte between
  the fixed prefix and the end of the buffer.
\<close>

theorem read_pdb_terminator_search_past_end:
  "length (rsds_magic @ guid_bytes @ le32 1203 @ [0x66, 0x6F, 0x6F, 0x2E, 0x70, 0x64]) = 30
   \<and> memchr (rsds_magic @ guid_bytes @ le32 1203 @ [0x66, 0x6F, 0x6F, 0x2E, 0x70, 0x64])
        (4 + 16 + 4) 0x00 30 = Inl Read_Past_End
   \<and> read_pdb (rsds_magic @ guid_bytes @ le32 1203 @ [0x66, 0x6F, 0x6F, 0x2E, 0x70, 0x64])
       = Inl Read_Past_End"
proof -
  let ?src = "rsds_magic @ guid_bytes @ le32 1203 @ [0x66, 0x6F, 0x6F, 0x2E, 0x70, 0x64]"
  have l: "length ?src = 30" by simp
  have m: "memchr ?src (4 + 16 + 4) 0x00 30 = Inl Read_Past_End"
    by (rule memchr_past_end) (simp_all add: rsds_magic_def le32_def)
  have s: "search ?src rsds_magic = Some 0" by (rule search_prefix)
  have r: "read_pdb ?src = Inl Read_Past_End"
    by (subst read_pdb.simps) (simp only: s option.case drop_0 l m sum.case, simp)
  from l m r show ?thesis by blast
qed

section \<open>The DWARF backend: facts\<close>

subsection \<open>The order of the member search\<close>

lemma find_append:
  "find P (xs @ ys) = (case find P xs of Some x \<Rightarrow> Some x | None \<Rightarrow> find P ys)"
  by (induction xs) auto

lemma get_structure_find:
  "get_structure nm dies pass
     = find (\<lambda>d. dwarf_diename d = DW_DLV_OK nm)
         (if pass then flattened_members dies else dies)"
proof (induction nm dies pass rule: get_structure.induct)
  case (1 nm pass)
  then show ?case by simp
next
  case (2 nm ok_diename ty ch at bs rest pass)
  show ?case
  proof (cases "pass \<and> ok_diename = DW_DLV_NO_ENTRY")
    case False
    then show ?thesis using 2 by (auto split: dw.splits)
  next
    case True
    show ?thesis
    proof (cases ty)
      case None
      then show ?thesis using True 2 by simp
    next
      case (Some t)
      obtain n' ty' ch' at' bs' where t: "t = Dwarf_Die n' ty' ch' at' bs'" by (cases t)
      show ?thesis
      proof (cases ch')
        case None
        then show ?thesis using True Some t 2 by simp
      next
        case (Some children)
        have "get_structure nm children True
                = find (\<lambda>d. dwarf_diename d = DW_DLV_OK nm) (flattened_members children)"
          using "2.IH"(3) [OF True \<open>ty = Some t\<close> t Some] by simp
        note c = this
        show ?thesis
        proof (cases "get_structure nm children True")
          case None
          have "get_structure nm rest pass
                = find (\<lambda>d. dwarf_diename d = DW_DLV_OK nm) (flattened_members rest)"
            using True "2.IH"(4) [OF True \<open>ty = Some t\<close> t Some None] by simp
          then show ?thesis
            using True \<open>ty = Some t\<close> t Some None c by (simp add: find_append)
        next
          case (Some child)
          then show ?thesis
            using True \<open>ty = Some t\<close> t \<open>ch' = Some children\<close> c by (simp add: find_append)
        qed
      qed
    qed
  qed
qed


lemma flattened_members_append:
  "flattened_members (xs @ ys) = flattened_members xs @ flattened_members ys"
  by (induction xs rule: flattened_members.induct) simp_all

text \<open>
  C3, as stated, fails: a structure whose first child is an unnamed member holding a
  member \<open>x\<close> at 4, and whose second child is a direct member \<open>x\<close> at 8. The search
  enters the unnamed member when it meets it and returns the inner \<open>x\<close>; the direct
  member does not take precedence.
\<close>

theorem struc_offset_direct_member_counterexample:
  "struc_offset
     \<lparr>structures = [struct_die ''S'' [anonymous_die [member_die ''x'' 4] 0, member_die ''x'' 8]]\<rparr>
     ''S'' ''x'' = Some 4
   \<and> get_attr_member_location (member_die ''x'' 8) = Some 8"
  by (simp add: struc_offset_def read_children_def get_attr_member_location_def
      DW_FORM_data1_def)

text \<open>
  C3, amended. For entries whose types and children form a finite tree: the member
  search of \<^verbatim>\<open>struc_offset\<close> is one pass over the children of the structure, in
  declaration order. A named child is compared with the member name; an unnamed child is
  entered at the moment it is met, the children of its type being searched in the same
  way, to any depth, before the next direct child is looked at. The member found is the
  first exact match of the flattened list of members, and there is no result when that
  list has no match. Hence a direct member is the one found, and its location attribute
  the offset returned, whenever no unnamed child declared before it holds a member of
  that name. Nothing is said here about the offset returned for a member found inside an
  unnamed child.
\<close>

theorem struc_offset_search_order:
  "get_structure member children True
     = find (\<lambda>d. dwarf_diename d = DW_DLV_OK member) (flattened_members children)
   \<and> (get_structure struc (structures p) False = Some structure
        \<and> dwarf_children structure = Some children
        \<and> find (\<lambda>d. dwarf_diename d = DW_DLV_OK member) (flattened_members children) = None
      \<longrightarrow> struc_offset p struc member = None)
   \<and> (dwarf_diename d = DW_DLV_OK member
        \<and> find (\<lambda>d. dwarf_diename d = DW_DLV_OK member) (flattened_members before) = None
      \<longrightarrow> get_structure member (before @ d # after) True = Some d
        \<and> (get_structure struc (structures p) False = Some structure
             \<and> dwarf_children structure = Some (before @ d # after)
           \<longrightarrow> struc_offset p struc member = get_attr_member_location d))"
proof (intro conjI impI)
  show "get_structure member children True
     = find (\<lambda>d. dwarf_diename d = DW_DLV_OK member) (flattened_members children)"
    by (simp add: get_structure_find)
next
  assume "get_structure struc (structures p) False = Some structure
        \<and> dwarf_children structure = Some children
        \<and> find (\<lambda>d. dwarf_diename d = DW_DLV_OK member) (flattened_members children) = None"
  then show "struc_offset p struc member = None"
    by (simp add: struc_offset_def read_children_def get_structure_find)
next
  assume a: "dwarf_diename d = DW_DLV_OK member
        \<and> find (\<lambda>d. dwarf_diename d = DW_DLV_OK member) (flattened_members before) = None"
  obtain n ty ch at bs where d: "d = Dwarf_Die n ty ch at bs" by (cases d)
  have "flattened_members (d # after) = d # flattened_members after"
    using a d by simp
  then have "flattened_members (before @ d # after)
               = flattened_members before @ d # flattened_members after"
    by (simp add: flattened_members_append)
  then show g: "get_structure member (before @ d # after) True = Some d"
    using a by (simp add: get_structure_find find_append)
  assume "get_structure struc (structures p) False = Some structure
             \<and> dwarf_children structure = Some (before @ d # after)"
  then show "struc_offset p struc member = get_attr_member_location d"
    using g by (simp add: struc_offset_def read_children_def split: option.splits)
qed

theorem struc_offset_search_order_witness:
  "get_structure ''y''
     [member_die ''a'' 0, anonymous_die [anonymous_die [member_die ''y'' 4] 0] 0] True
     = Some (member_die ''y'' 4)
   \<and> get_structure ''S''
        (structures \<lparr>structures = [struct_die ''S''
           ([anonymous_die [member_die ''y'' 4] 0] @ member_die ''x'' 8
              # [anonymous_die [member_die ''x'' 12] 0])]\<rparr>) False
       = Some (struct_die ''S''
           ([anonymous_die [member_die ''y'' 4] 0] @ member_die ''x'' 8
              # [anonymous_die [member_die ''x'' 12] 0]))
   \<and> dwarf_diename (member_die ''x'' 8) = DW_DLV_OK ''x''
   \<and> find (\<lambda>d. dwarf_diename d = DW_DLV_OK ''x'')
        (flattened_members [anonymous_die [member_die ''y'' 4] 0]) = None
   \<and> get_structure ''x''
        ([anonymous_die [member_die ''y'' 4] 0] @ member_die ''x'' 8
           # [anonymous_die [member_die ''x'' 12] 0]) True
       = Some (member_die ''x'' 8)
   \<and> struc_offset \<lparr>structures = [struct_die ''S''
           ([anonymous_die [member_die ''y'' 4] 0] @ member_die ''x'' 8
              # [anonymous_die [member_die ''x'' 12] 0])]\<rparr> ''S'' ''x'' = Some 8
   \<and> find (\<lambda>d. dwarf_diename d = DW_DLV_OK ''z'')
        (flattened_members ([anonymous_die [member_die ''y'' 4] 0] @ member_die ''x'' 8
              # [anonymous_die [member_die ''x'' 12] 0])) = None
   \<and> struc_offset \<lparr>structures = [struct_die ''S''
           ([anonymous_die [member_die ''y'' 4] 0] @ member_die ''x'' 8
              # [anonymous_die [member_die ''x'' 12] 0])]\<rparr> ''S'' ''z'' = None"
  (is "?c1 \<and> ?c2 \<and> ?c3 \<and> ?c4 \<and> ?c5 \<and> ?c6 \<and> ?c7 \<and> ?c8")
proof -
  let ?before = "[anonymous_die [member_die ''y'' 4] 0]"
  let ?after = "[anonymous_die [member_die ''x'' 12] 0]"
  let ?S = "struct_die ''S'' (?before @ member_die ''x'' 8 # ?after)"
  let ?p = "\<lparr>structures = [?S]\<rparr>"
  have c2: ?c2 by simp
  have c3: ?c3 by simp
  have c4: ?c4 by simp
  have c7: ?c7 by simp
  have ch: "dwarf_children ?S = Some (?before @ member_die ''x'' 8 # ?after)" by simp
  have l: "get_attr_member_location (member_die ''x'' 8) = Some 8"
    by (simp add: get_attr_member_location_def DW_FORM_data1_def)
  have c1: ?c1
    using struc_offset_search_order
      [of "''y''" "[member_die ''a'' 0, anonymous_die [anonymous_die [member_die ''y'' 4] 0] 0]"]
    by simp
  have "?c5 \<and> struc_offset ?p ''S'' ''x'' = get_attr_member_location (member_die ''x'' 8)"
    using struc_offset_search_order
      [of "''x''" _ "''S''" ?p ?S "member_die ''x'' 8" ?before ?after] c2 c3 c4 ch
    by blast
  then have c5: ?c5 and c6: ?c6 using l by simp_all
  have c8: ?c8
    using struc_offset_search_order
      [of "''z''" "?before @ member_die ''x'' 8 # ?after" "''S''" ?p ?S] c2 c7 ch
    by blast
  from c1 c2 c3 c4 c5 c6 c7 c8 show ?thesis by blast
qed

subsection \<open>The location of a member\<close>

lemma get_attr_unsigned:
  assumes "dwarf_attr die = DW_DLV_OK attr" "dwarf_whatform attr = DW_DLV_OK form"
    and "form \<in> {DW_FORM_data1, DW_FORM_data2, DW_FORM_data4, DW_FORM_data8, DW_FORM_udata}"
    and "dwarf_formudata attr = DW_DLV_OK v"
  shows "get_attr_member_location die = Some v"
  using assms by (auto simp: get_attr_member_location_def)

lemma get_attr_signed:
  assumes "dwarf_attr die = DW_DLV_OK attr" "dwarf_whatform attr = DW_DLV_OK form"
    and "form = DW_FORM_sdata" "dwarf_formsdata attr = DW_DLV_OK s"
  shows "get_attr_member_location die = (if s <s 0 then None else Some s)"
  using assms
  by (simp add: get_attr_member_location_def DW_FORM_sdata_def DW_FORM_data1_def
      DW_FORM_data2_def DW_FORM_data4_def DW_FORM_data8_def DW_FORM_udata_def)

lemma single_op_iff:
  "length llbuf = 1 \<and> length (llbuf ! 0) = 1 \<and> lr_atom (llbuf ! 0 ! 0) = a
     \<and> lr_number (llbuf ! 0 ! 0) = c
   \<longleftrightarrow> llbuf = [[Dwarf_Loc a c]]"
proof
  assume h: "length llbuf = 1 \<and> length (llbuf ! 0) = 1 \<and> lr_atom (llbuf ! 0 ! 0) = a
     \<and> lr_number (llbuf ! 0 ! 0) = c"
  then obtain l where l: "llbuf = [l]" by (cases llbuf) auto
  with h obtain x where x: "l = [x]" by (cases l) auto
  show "llbuf = [[Dwarf_Loc a c]]" using h l x by (cases x) auto
next
  assume "llbuf = [[Dwarf_Loc a c]]"
  then show "length llbuf = 1 \<and> length (llbuf ! 0) = 1 \<and> lr_atom (llbuf ! 0 ! 0) = a
     \<and> lr_number (llbuf ! 0 ! 0) = c" by simp
qed

lemma get_attr_location_expression:
  assumes "dwarf_attr die = DW_DLV_OK attr" "dwarf_whatform attr = DW_DLV_OK form"
    and "form \<notin> {DW_FORM_data1, DW_FORM_data2, DW_FORM_data4, DW_FORM_data8, DW_FORM_udata,
                  DW_FORM_sdata}"
  shows "get_attr_member_location die = Some c
     \<longleftrightarrow> dwarf_loclist_n attr = DW_DLV_OK [[Dwarf_Loc DW_OP_plus_uconst c]]"
proof (cases "dwarf_loclist_n attr")
  case (DW_DLV_OK llbuf)
  have "get_attr_member_location die =
     (if length llbuf \<noteq> 1 \<or> length (llbuf ! 0) \<noteq> 1
          \<or> lr_atom (llbuf ! 0 ! 0) \<noteq> DW_OP_plus_uconst
      then None else Some (lr_number (llbuf ! 0 ! 0)))"
    using assms DW_DLV_OK by (simp add: get_attr_member_location_def)
  then show ?thesis
    using single_op_iff [of llbuf DW_OP_plus_uconst c] DW_DLV_OK by auto
next
  case DW_DLV_NO_ENTRY
  then show ?thesis using assms by (simp add: get_attr_member_location_def)
next
  case DW_DLV_ERROR
  then show ?thesis using assms by (simp add: get_attr_member_location_def)
qed


text \<open>
  C8. The forms of fixed width 1, 2, 4 and 8 bytes and the unsigned variable-length form
  are read as unsigned and returned as they are; the signed form is read as signed,
  refused when negative and otherwise returned as unsigned. Any other form is read as a
  location expression, and an offset is returned exactly when the expression is one
  description of one operation \<^verbatim>\<open>DW_OP_plus_uconst\<close>, whose operand is the offset;
  every other shape gives the absent result. The decoder is a function of the entry
  alone and returns nothing but the result: the structures of the index are what they
  were before the query.
\<close>

theorem get_attr_member_location_forms:
  assumes "dwarf_attr die = DW_DLV_OK attr" and "dwarf_whatform attr = DW_DLV_OK form"
  shows "(form \<in> {DW_FORM_data1, DW_FORM_data2, DW_FORM_data4, DW_FORM_data8, DW_FORM_udata}
            \<and> dwarf_formudata attr = DW_DLV_OK v
          \<longrightarrow> get_attr_member_location die = Some v)
       \<and> (form = DW_FORM_sdata \<and> dwarf_formsdata attr = DW_DLV_OK s
          \<longrightarrow> get_attr_member_location die = (if s <s 0 then None else Some s))
       \<and> (form \<notin> {DW_FORM_data1, DW_FORM_data2, DW_FORM_data4, DW_FORM_data8,
                     DW_FORM_udata, DW_FORM_sdata}
          \<longrightarrow> (get_attr_member_location die = Some c
                 \<longleftrightarrow> dwarf_loclist_n attr = DW_DLV_OK [[Dwarf_Loc DW_OP_plus_uconst c]]))"
proof (intro conjI impI)
  assume "form \<in> {DW_FORM_data1, DW_FORM_data2, DW_FORM_data4, DW_FORM_data8, DW_FORM_udata}
            \<and> dwarf_formudata attr = DW_DLV_OK v"
  then show "get_attr_member_location die = Some v"
    using get_attr_unsigned [OF assms] by blast
next
  assume "form = DW_FORM_sdata \<and> dwarf_formsdata attr = DW_DLV_OK s"
  then show "get_attr_member_location die = (if s <s 0 then None else Some s)"
    using get_attr_signed [OF assms] by blast
next
  assume "form \<notin> {DW_FORM_data1, DW_FORM_data2, DW_FORM_data4, DW_FORM_data8,
                     DW_FORM_udata, DW_FORM_sdata}"
  then show "get_attr_member_location die = Some c
                 \<longleftrightarrow> dwarf_loclist_n attr = DW_DLV_OK [[Dwarf_Loc DW_OP_plus_uconst c]]"
    by (rule get_attr_location_expression [OF assms])
qed

theorem get_attr_member_location_forms_witness:
  "get_attr_member_location (member_die ''x'' 8) = Some 8
   \<and> get_attr_member_location
        (Dwarf_Die (DW_DLV_OK ''x'') None (Some [])
           (DW_DLV_OK (Dwarf_Attribute (DW_DLV_OK DW_FORM_sdata) DW_DLV_ERROR (DW_DLV_OK (- 8))
                         DW_DLV_ERROR))
           DW_DLV_NO_ENTRY) = None
   \<and> get_attr_member_location
        (Dwarf_Die (DW_DLV_OK ''x'') None (Some [])
           (DW_DLV_OK (Dwarf_Attribute (DW_DLV_OK 0x18) DW_DLV_ERROR DW_DLV_ERROR
                         (DW_DLV_OK [[Dwarf_Loc DW_OP_plus_uconst 12]])))
           DW_DLV_NO_ENTRY) = Some 12
   \<and> get_attr_member_location
        (Dwarf_Die (DW_DLV_OK ''x'') None (Some [])
           (DW_DLV_OK (Dwarf_Attribute (DW_DLV_OK 0x18) DW_DLV_ERROR DW_DLV_ERROR
                         (DW_DLV_OK [[Dwarf_Loc 0x10 4, Dwarf_Loc 0x22 0]])))
           DW_DLV_NO_ENTRY) \<noteq> Some 4"
  (is "?c1 \<and> ?c2 \<and> ?c3 \<and> ?c4")
proof -
  have f: "(0x18 :: 16 word) \<notin> {DW_FORM_data1, DW_FORM_data2, DW_FORM_data4, DW_FORM_data8,
                     DW_FORM_udata, DW_FORM_sdata}"
    by (simp add: DW_FORM_data1_def DW_FORM_data2_def DW_FORM_data4_def DW_FORM_data8_def
        DW_FORM_udata_def DW_FORM_sdata_def)
  have c1: ?c1
    using get_attr_member_location_forms
      [of "member_die ''x'' 8"
          "Dwarf_Attribute (DW_DLV_OK DW_FORM_data1) (DW_DLV_OK 8) DW_DLV_ERROR DW_DLV_ERROR"
          DW_FORM_data1 8]
    by simp
  have n: "(- 8 :: 64 word) <s 0" by (simp add: word_sless_alt)
  have c2: ?c2
    using get_attr_member_location_forms
      [of "Dwarf_Die (DW_DLV_OK ''x'') None (Some [])
           (DW_DLV_OK (Dwarf_Attribute (DW_DLV_OK DW_FORM_sdata) DW_DLV_ERROR (DW_DLV_OK (- 8))
                         DW_DLV_ERROR))
           DW_DLV_NO_ENTRY"
          "Dwarf_Attribute (DW_DLV_OK DW_FORM_sdata) DW_DLV_ERROR (DW_DLV_OK (- 8)) DW_DLV_ERROR"
          DW_FORM_sdata _ "- 8"] n
    by simp
  have c3: ?c3
    using get_attr_member_location_forms
      [of "Dwarf_Die (DW_DLV_OK ''x'') None (Some [])
           (DW_DLV_OK (Dwarf_Attribute (DW_DLV_OK 0x18) DW_DLV_ERROR DW_DLV_ERROR
                         (DW_DLV_OK [[Dwarf_Loc DW_OP_plus_uconst 12]])))
           DW_DLV_NO_ENTRY"
          "Dwarf_Attribute (DW_DLV_OK 0x18) DW_DLV_ERROR DW_DLV_ERROR
                         (DW_DLV_OK [[Dwarf_Loc DW_OP_plus_uconst 12]])"
          "0x18" _ _ 12] f
    by simp
  have c4: ?c4
    using get_attr_member_location_forms
      [of "Dwarf_Die (DW_DLV_OK ''x'') None (Some [])
           (DW_DLV_OK (Dwarf_Attribute (DW_DLV_OK 0x18) DW_DLV_ERROR DW_DLV_ERROR
                         (DW_DLV_OK [[Dwarf_Loc 0x10 4, Dwarf_Loc 0x22 0]])))
           DW_DLV_NO_ENTRY"
          "Dwarf_Attribute (DW_DLV_OK 0x18) DW_DLV_ERROR DW_DLV_ERROR
                         (DW_DLV_OK [[Dwarf_Loc 0x10 4, Dwarf_Loc 0x22 0]])"
          "0x18" _ _ 4] f
    by simp
  from c1 c2 c3 c4 show ?thesis by blast
qed

section \<open>The span of a resolver\<close>

text \<open>
  C10, as stated, fails for the DWARF backend: a resolver constructed with the span at
  \<open>0x1000\<close> answers \<^verbatim>\<open>span()\<close> with the value-initialised span.
\<close>

theorem dwarf_span_counterexample:
  "make_dwarf span0 (Some ''/symbols'') one_struct_file
     = Some \<lparr>structures = [struct_die ''S'' [member_die ''x'' 8]]\<rparr>
   \<and> Dwarf_span \<lparr>structures = [struct_die ''S'' [member_die ''x'' 8]]\<rparr> \<noteq> span0"
  by (simp add: make_dwarf_def Dwarf_setup_def open_file_def read_cu_def read_children_def
      Dwarf_span_def span_default_def)

text \<open>
  C10, amended. A resolver of the program-database backend, constructed from a module
  name and identifier or from a module image, answers \<^verbatim>\<open>span()\<close> with the span given
  at construction; no query changes the resolver. A resolver of the DWARF backend ignores
  the span given at construction and answers \<^verbatim>\<open>span()\<close> with the value-initialised
  span (address 0, size 0); its construction from a module image always fails.
\<close>

theorem span_after_construction:
  "(make_pdb sp err gs = Some p \<longrightarrow> Pdb_span p = sp)
   \<and> (make_pdb_image load sp data = Some p' \<longrightarrow> Pdb_span p' = sp)
   \<and> (make_dwarf sp path f = Some d \<longrightarrow> Dwarf_span d = span_default)
   \<and> make_dwarf_image sp data = None"
proof (intro conjI impI)
  assume "make_pdb sp err gs = Some p"
  then have "p = foldl setup_step (Pdb_new sp) gs" by (rule make_pdb_Some)
  then show "Pdb_span p = sp" by (simp add: Pdb_span_def Pdb_new_def)
next
  assume a: "make_pdb_image load sp data = Some p'"
  then obtain e g where "make_pdb sp e g = Some p'"
    by (auto simp: make_pdb_image_def split: sum.splits)
  then have "p' = foldl setup_step (Pdb_new sp) g" by (rule make_pdb_Some)
  then show "Pdb_span p' = sp" by (simp add: Pdb_span_def Pdb_new_def)
next
  show "Dwarf_span d = span_default" by (simp add: Dwarf_span_def)
next
  show "make_dwarf_image sp data = None" by (simp add: make_dwarf_image_def)
qed

theorem span_after_construction_witness:
  "make_pdb span0 PDB_STATE_OK [var_f]
     = Some \<lparr>span_member = span0, symbols = [(''f'', var_f)],
             symbols_by_offset = [(0x1010, var_f)]\<rparr>
   \<and> Pdb_span \<lparr>span_member = span0, symbols = [(''f'', var_f)],
               symbols_by_offset = [(0x1010, var_f)]\<rparr> = span0
   \<and> make_dwarf span0 (Some ''/symbols'') one_struct_file
     = Some \<lparr>structures = [struct_die ''S'' [member_die ''x'' 8]]\<rparr>
   \<and> Dwarf_span \<lparr>structures = [struct_die ''S'' [member_die ''x'' 8]]\<rparr> = span_default"
  (is "?mk = Some ?P \<and> ?c2 \<and> ?md = Some ?D \<and> ?c4")
proof -
  have h1: "?mk = Some ?P" by (simp add: build_defs)
  have h2: "?md = Some ?D"
    by (simp add: make_dwarf_def Dwarf_setup_def open_file_def read_cu_def read_children_def)
  from span_after_construction [of span0 PDB_STATE_OK "[var_f]" ?P _ _ _
      "Some ''/symbols''" one_struct_file ?D] h1 h2
  have "?c2 \<and> ?c4" by blast
  with h1 h2 show ?thesis by blast
qed

end
